theory Spec2Isabelle
  imports Main "HOL-Library.Word"
begin

section \<open>Data model\<close>

text \<open>
  The program under verification is \<^verbatim>\<open>random_forest_example/load_ONNX_model.cpp\<close>: one
  \<^verbatim>\<open>main\<close> that calls the ONNX Runtime C++ API in sequence inside a single
  \<^verbatim>\<open>try\<close> block. The runtime library is not part of the repository, so every library
  call is a field of the record \<open>runtime\<close> and the program is a function of that record.

  A C \<^verbatim>\<open>float\<close> is kept as its 32-bit pattern (the program never computes with floats,
  it only passes them on), an \<^verbatim>\<open>int64_t\<close> as a 64-bit word, a \<^verbatim>\<open>size_t\<close> count as
  a natural number (no arithmetic of the program can overflow it: the only operation is
  \<^verbatim>\<open>i++\<close> below a bound).
\<close>

type_synonym float32 = "32 word"
type_synonym int64 = "64 word"
type_synonym addr = nat

text \<open>
  What a library call can throw: \<^verbatim>\<open>Ort::Exception\<close> with its \<^verbatim>\<open>what()\<close> message, or
  an exception of any other type (for instance \<^verbatim>\<open>std::bad_alloc\<close>), named by a string.
  Exceptions enter the model through the library calls only: memory exhaustion inside the
  program's own \<^verbatim>\<open>std::vector\<close> constructions is not modelled.
\<close>

datatype exn = OrtException string | OtherException string

text \<open>Why the \<^verbatim>\<open>try\<close> block stops early: a C++ exception, or undefined behaviour
  (a read through a dangling or out-of-range pointer).\<close>

datatype abort = Raise exn | Undefined

text \<open>How the process ends: \<^verbatim>\<open>main\<close> returns a code, an exception leaves \<^verbatim>\<open>main\<close>
  uncaught (\<^verbatim>\<open>std::terminate\<close>), or the behaviour is undefined.\<close>

datatype outcome = Exit int | Uncaught exn | Undefined_behaviour

text \<open>The library calls of the program, in the order of the source, for the call trace.\<close>

datatype lib_call =
    Call_Env
  | Call_SessionOptions
  | Call_SetIntraOpNumThreads nat
  | Call_Session string
  | Call_AllocatorWithDefaultOptions
  | Call_GetInputCount
  | Call_GetInputNameAllocated nat
  | Call_GetOutputCount
  | Call_GetOutputNameAllocated nat
  | Call_CreateCpu
  | Call_CreateTensor
  | Call_Run
  | Call_GetTensorMutableData

text \<open>
  The runtime library as the program sees it. \<open>'s\<close> is the opaque session handle,
  \<open>'v\<close> the opaque \<^verbatim>\<open>Ort::Value\<close>. A call returns \<open>Inl e\<close> when it throws \<open>e\<close>.
  The environment, the session options, the allocator and the memory info are only passed
  on by the program, so their constructors return no value here and the session
  constructor is a function of the path. \<open>show_float\<close> is the text \<^verbatim>\<open>operator<<\<close>
  writes for a \<^verbatim>\<open>float\<close>.
\<close>

record ('s, 'v) runtime =
  Env :: "exn + unit"
  SessionOptions :: "exn + unit"
  SetIntraOpNumThreads :: "nat \<Rightarrow> exn + unit"
  Session :: "string \<Rightarrow> exn + 's"
  AllocatorWithDefaultOptions :: "exn + unit"
  GetInputCount :: "'s \<Rightarrow> exn + nat"
  GetInputNameAllocated :: "'s \<Rightarrow> nat \<Rightarrow> exn + string"
  GetOutputCount :: "'s \<Rightarrow> exn + nat"
  GetOutputNameAllocated :: "'s \<Rightarrow> nat \<Rightarrow> exn + string"
  CreateCpu :: "exn + unit"
  CreateTensor :: "float32 list \<Rightarrow> int64 list \<Rightarrow> exn + 'v"
  Run :: "'s \<Rightarrow> string list \<Rightarrow> 'v list \<Rightarrow> string list \<Rightarrow> exn + 'v list"
  GetTensorMutableData :: "'v \<Rightarrow> exn + float32 list"
  show_float :: "float32 \<Rightarrow> string"

text \<open>
  The state the program changes: the lines written to \<^verbatim>\<open>std::cout\<close> (every output
  statement of the source ends with \<^verbatim>\<open>std::endl\<close>), the name strings the allocator has
  handed out and not yet taken back, the next address it will hand out, the number of
  \<^verbatim>\<open>Free\<close> calls on an address that is not a live block, and the library calls made,
  each with the exception it threw (\<open>None\<close> when it returned).
\<close>

record state =
  out :: "string list"
  live :: "(addr \<times> string) list"
  next_addr :: addr
  invalid_frees :: nat
  calls :: "(lib_call \<times> exn option) list"

definition init :: "addr \<Rightarrow> state" where
  "init base = \<lparr>out = [], live = [], next_addr = base, invalid_frees = 0, calls = []\<rparr>"

section \<open>Primitive steps\<close>

definition print :: "string \<Rightarrow> state \<Rightarrow> state" where
  "print l s = s\<lparr>out := out s @ [l]\<rparr>"

definition digit_char :: "nat \<Rightarrow> char" where
  "digit_char d = ''0123456789'' ! d"

fun show_nat :: "nat \<Rightarrow> string" where
  "show_nat n =
     (if n < 10 then [digit_char n] else show_nat (n div 10) @ [digit_char (n mod 10)])"

declare show_nat.simps [simp del]

text \<open>The allocator: a fresh block holding the string; \<^verbatim>\<open>Free\<close> of a live block takes
  it back, \<^verbatim>\<open>Free\<close> of the null pointer does nothing, any other \<^verbatim>\<open>Free\<close> is counted
  as invalid (a double free).\<close>

definition alloc :: "string \<Rightarrow> state \<Rightarrow> addr \<times> state" where
  "alloc str s =
     (next_addr s, s\<lparr>live := (next_addr s, str) # live s, next_addr := Suc (next_addr s)\<rparr>)"

definition read_str :: "state \<Rightarrow> addr \<Rightarrow> string option" where
  "read_str s a = map_of (live s) a"

fun Free :: "addr option \<Rightarrow> state \<Rightarrow> state" where
  "Free None s = s"
| "Free (Some a) s =
     (if a \<in> fst ` set (live s)
      then s\<lparr>live := filter (\<lambda>b. fst b \<noteq> a) (live s)\<rparr>
      else s\<lparr>invalid_frees := Suc (invalid_frees s)\<rparr>)"

text \<open>A library call: it is recorded in the trace, and its exception aborts the block.\<close>

definition log :: "lib_call \<Rightarrow> state \<Rightarrow> state" where
  "log c s = s\<lparr>calls := calls s @ [(c, None)]\<rparr>"

definition log_throw :: "lib_call \<Rightarrow> exn \<Rightarrow> state \<Rightarrow> state" where
  "log_throw c e s = s\<lparr>calls := calls s @ [(c, Some e)]\<rparr>"

definition lib :: "lib_call \<Rightarrow> exn + 'a \<Rightarrow> state \<Rightarrow> (abort + 'a) \<times> state" where
  "lib c r s =
     (case r of
        Inl e \<Rightarrow> (Inl (Raise e), log_throw c e s)
      | Inr v \<Rightarrow> (Inr v, log c s))"

text \<open>Sequencing inside the \<^verbatim>\<open>try\<close> block: the first abort ends the block.\<close>

definition and_then ::
  "(state \<Rightarrow> (abort + 'a) \<times> state) \<Rightarrow> ('a \<Rightarrow> state \<Rightarrow> (abort + 'b) \<times> state) \<Rightarrow>
   state \<Rightarrow> (abort + 'b) \<times> state" where
  "and_then m f s = (case m s of (Inl a, s') \<Rightarrow> (Inl a, s') | (Inr v, s') \<Rightarrow> f v s')"

text \<open>Reading a C string through a pointer: the null pointer and a pointer to a block
  that is not live are undefined behaviour.\<close>

definition deref :: "addr option \<Rightarrow> state \<Rightarrow> (abort + string) \<times> state" where
  "deref p s =
     (case p of
        None \<Rightarrow> (Inl Undefined, s)
      | Some a \<Rightarrow> (case read_str s a of None \<Rightarrow> (Inl Undefined, s) | Some str \<Rightarrow> (Inr str, s)))"

fun deref_all :: "addr option list \<Rightarrow> state \<Rightarrow> (abort + string list) \<times> state" where
  "deref_all [] s = (Inr [], s)"
| "deref_all (p # ps) s =
     and_then (deref p) (\<lambda>x. and_then (deref_all ps) (\<lambda>xs s'. (Inr (x # xs), s'))) s"

section \<open>The program\<close>

definition model_path :: string where
  "model_path = ''../random_forest_model_v9.onnx''"

text \<open>
  The two name loops of the source (lines 37-41 and 49-53) differ in the label printed, the
  session call and nothing else:
  \<^verbatim>\<open>
  for (size_t i = 0; i < num_input_nodes; i++) {
      Ort::AllocatedStringPtr input_name = session.GetInputNameAllocated(i, allocator);
      std::cout << "Input " << i << " : name=" << input_name.get() << std::endl;
      input_node_names[i] = input_name.release();
  }
  \<close>
  \<open>get\<close> is the session call, \<open>c\<close> its entry in the trace. The string is allocated by the
  allocator, read back through the smart pointer for printing, and the raw pointer is stored
  at index \<open>i\<close> of the vector; \<^verbatim>\<open>release()\<close> gives up ownership, so nothing is freed at
  the end of the iteration.
\<close>

function name_loop ::
  "string \<Rightarrow> (nat \<Rightarrow> lib_call) \<Rightarrow> (nat \<Rightarrow> exn + string) \<Rightarrow> nat \<Rightarrow> nat \<Rightarrow> addr option list \<Rightarrow>
   state \<Rightarrow> (abort + addr option list) \<times> state" where
  "name_loop label c get i n names s =
     (if i < n then
        (case lib (c i) (get i) s of
           (Inl a, s1) \<Rightarrow> (Inl a, s1)
         | (Inr str, s1) \<Rightarrow>
             (case alloc str s1 of
                (p, s2) \<Rightarrow>
                  (case deref (Some p) s2 of
                     (Inl a, s3) \<Rightarrow> (Inl a, s3)
                   | (Inr shown, s3) \<Rightarrow>
                       name_loop label c get (Suc i) n (names[i := Some p])
                         (print (label @ show_nat i @ '' : name='' @ shown) s3))))
      else (Inr names, s))"
  by pat_completeness auto
termination
  by (relation "measure (\<lambda>(label, c, get, i, n, names, s). n - i)") auto

declare name_loop.simps [simp del]

text \<open>The state after one iteration of a name loop whose session call returned \<open>str\<close>.\<close>

definition name_step :: "string \<Rightarrow> lib_call \<Rightarrow> nat \<Rightarrow> string \<Rightarrow> state \<Rightarrow> state" where
  "name_step label c i str s =
     print (label @ show_nat i @ '' : name='' @ str) (snd (alloc str (log c s)))"

text \<open>Lines 17-29: environment, session options, session, allocator.\<close>

definition open_session :: "('s, 'v) runtime \<Rightarrow> state \<Rightarrow> (abort + 's) \<times> state" where
  "open_session rt =
     and_then (lib Call_Env (Env rt)) (\<lambda>_.
     and_then (lib Call_SessionOptions (SessionOptions rt)) (\<lambda>_.
     and_then (lib (Call_SetIntraOpNumThreads 1) (SetIntraOpNumThreads rt 1)) (\<lambda>_.
     and_then (lib (Call_Session model_path) (Session rt model_path)) (\<lambda>session.
     and_then (lib Call_AllocatorWithDefaultOptions (AllocatorWithDefaultOptions rt)) (\<lambda>_.
     (\<lambda>s. (Inr session, s)))))))"

text \<open>Lines 31-53: the counts and names of the input and output nodes are printed and the
  name pointers collected in two vectors, each created with \<open>n\<close> null pointers.\<close>

definition report_names ::
  "('s, 'v) runtime \<Rightarrow> 's \<Rightarrow> state \<Rightarrow> (abort + addr option list \<times> addr option list) \<times> state" where
  "report_names rt session =
     and_then (lib Call_GetInputCount (GetInputCount rt session)) (\<lambda>num_input_nodes.
     and_then (\<lambda>s. (Inr (), print (''Number of inputs = '' @ show_nat num_input_nodes) s)) (\<lambda>_.
     and_then (name_loop ''Input '' Call_GetInputNameAllocated (GetInputNameAllocated rt session)
                 0 num_input_nodes (replicate num_input_nodes None)) (\<lambda>input_node_names.
     and_then (lib Call_GetOutputCount (GetOutputCount rt session)) (\<lambda>num_output_nodes.
     and_then (\<lambda>s. (Inr (), print (''Number of outputs = '' @ show_nat num_output_nodes) s)) (\<lambda>_.
     and_then (name_loop ''Output '' Call_GetOutputNameAllocated (GetOutputNameAllocated rt session)
                 0 num_output_nodes (replicate num_output_nodes None)) (\<lambda>output_node_names.
     (\<lambda>s. (Inr (input_node_names, output_node_names), s))))))))"

text \<open>The hard-coded input of lines 56-57: the floats 1, 2, 3, 4 and the shape \<open>{1, 4}\<close>.\<close>

definition input_tensor_values :: "float32 list" where
  "input_tensor_values = [0x3F800000, 0x40000000, 0x40400000, 0x40800000]"

definition input_tensor_shape :: "int64 list" where
  "input_tensor_shape = [1, 4]"

text \<open>
  Lines 58-71. \<^verbatim>\<open>Run\<close> is given \<^verbatim>\<open>input_node_names.data()\<close> with the input count 1, so
  it reads exactly the first input name (through an empty vector that is undefined), and all
  the output names. \<^verbatim>\<open>output_tensors[0]\<close> and \<^verbatim>\<open>floatarr[0]\<close> are unchecked reads:
  undefined when there is no such element.
\<close>

definition run_inference ::
  "('s, 'v) runtime \<Rightarrow> 's \<Rightarrow> addr option list \<Rightarrow> addr option list \<Rightarrow> state \<Rightarrow>
   (abort + unit) \<times> state" where
  "run_inference rt session input_node_names output_node_names =
     and_then (lib Call_CreateCpu (CreateCpu rt)) (\<lambda>_.
     and_then (lib Call_CreateTensor (CreateTensor rt input_tensor_values input_tensor_shape))
       (\<lambda>input_tensor.
     and_then (\<lambda>s. case input_node_names of
                      [] \<Rightarrow> (Inl Undefined, s)
                    | p # _ \<Rightarrow> deref p s) (\<lambda>input_name.
     and_then (deref_all output_node_names) (\<lambda>output_names.
     and_then (lib Call_Run (Run rt session [input_name] [input_tensor] output_names))
       (\<lambda>output_tensors.
     and_then (\<lambda>s. case output_tensors of
                      [] \<Rightarrow> (Inl Undefined, s)
                    | t # _ \<Rightarrow> lib Call_GetTensorMutableData (GetTensorMutableData rt t) s)
       (\<lambda>floatarr.
     (\<lambda>s. case floatarr of
             [] \<Rightarrow> (Inl Undefined, s)
           | x # _ \<Rightarrow> (Inr (), print (''Prediction: '' @ show_float rt x) s))))))))"

text \<open>Lines 73-79: every collected pointer is handed back to the allocator.\<close>

definition cleanup :: "addr option list \<Rightarrow> addr option list \<Rightarrow> state \<Rightarrow> state" where
  "cleanup input_node_names output_node_names s =
     fold Free output_node_names (fold Free input_node_names s)"

text \<open>
  The \<^verbatim>\<open>try\<close> block. When a step aborts, the rest is skipped; the objects destroyed by
  unwinding (environment, session, tensors, the two vectors of raw pointers) own none of the
  name strings, so the allocator's blocks stay as they are.
\<close>

definition try_body :: "('s, 'v) runtime \<Rightarrow> state \<Rightarrow> (abort + unit) \<times> state" where
  "try_body rt =
     and_then (open_session rt) (\<lambda>session.
     and_then (report_names rt session) (\<lambda>(input_node_names, output_node_names).
     and_then (run_inference rt session input_node_names output_node_names) (\<lambda>_.
     (\<lambda>s. (Inr (), cleanup input_node_names output_node_names s)))))"

text \<open>
  \<^verbatim>\<open>main\<close> takes no arguments. The handler catches \<^verbatim>\<open>const Ort::Exception&\<close> only,
  prints its message and returns \<open>-1\<close>; the normal path returns \<open>0\<close>. \<open>base\<close> is the
  first address the allocator hands out, the one thing that may differ between two runs
  against the same runtime.
\<close>

definition main :: "('s, 'v) runtime \<Rightarrow> addr \<Rightarrow> outcome \<times> state" where
  "main rt base =
     (case try_body rt (init base) of
        (Inr _, s) \<Rightarrow> (Exit 0, s)
      | (Inl (Raise (OrtException what)), s) \<Rightarrow>
          (Exit (- 1), print (''Error running model inference: '' @ what) s)
      | (Inl (Raise (OtherException e)), s) \<Rightarrow> (Uncaught (OtherException e), s)
      | (Inl Undefined, s) \<Rightarrow> (Undefined_behaviour, s))"

section \<open>The runtime library, from the specification\<close>

text \<open>
  Modelled from the spec: the data model of section 3 for the ONNX Runtime library, which
  is not under \<^verbatim>\<open>src/\<close>. A model declares named inputs, each with an element type and
  a shape, and named outputs; \<open>model_infer\<close> is the function its graph computes. A
  tensor is a typed, shaped buffer of values.
\<close>

datatype elem_type = TensorFloat | TensorDouble | TensorInt64

record tensor =
  tensor_elem :: elem_type
  tensor_dims :: "int64 list"
  tensor_data :: "float32 list"

record model =
  model_inputs :: "(string \<times> elem_type \<times> int64 list) list"
  model_outputs :: "string list"
  model_infer :: "float32 list list \<Rightarrow> tensor list"

text \<open>Modelled from the spec: the library's check of the inputs of a run, which is not
  under \<^verbatim>\<open>src/\<close>. "The input tensor's shape and element type must exactly match the
  model's declared input signature, or the call fails": the tensors are bound to the input
  names.\<close>

definition matches_signature :: "model \<Rightarrow> string list \<Rightarrow> tensor list \<Rightarrow> bool" where
  "matches_signature m names ts =
     (zip names (map (\<lambda>t. (tensor_elem t, tensor_dims t)) ts) = model_inputs m \<and>
      length names = length ts)"

text \<open>
  Modelled from the spec: the ONNX Runtime library (\<^verbatim>\<open>onnxruntime_cxx_api.h\<close>), which is
  not under \<^verbatim>\<open>src/\<close>. \<open>files\<close> maps a path to the model stored there, \<open>None\<close> when the
  file is missing or corrupt. Per sections 4.1 and 7 of the specification the failure
  conditions are exactly: no readable model at the path (session construction fails) and a
  mismatch between the supplied input and the model's signature (the run fails); each is
  the one error kind, with a descriptive message. The session reports the declared names in
  declaration order.
\<close>

definition spec_runtime ::
  "(string \<Rightarrow> model option) \<Rightarrow> (float32 \<Rightarrow> string) \<Rightarrow> (model, tensor) runtime" where
  "spec_runtime files fmt =
     \<lparr>Env = Inr (),
      SessionOptions = Inr (),
      SetIntraOpNumThreads = (\<lambda>_. Inr ()),
      Session = (\<lambda>path. case files path of
                   None \<Rightarrow> Inl (OrtException (''Load model from '' @ path @ '' failed''))
                 | Some m \<Rightarrow> Inr m),
      AllocatorWithDefaultOptions = Inr (),
      GetInputCount = (\<lambda>m. Inr (length (model_inputs m))),
      GetInputNameAllocated = (\<lambda>m i.
         if i < length (model_inputs m) then Inr (fst (model_inputs m ! i))
         else Inl (OrtException ''input index out of range'')),
      GetOutputCount = (\<lambda>m. Inr (length (model_outputs m))),
      GetOutputNameAllocated = (\<lambda>m i.
         if i < length (model_outputs m) then Inr (model_outputs m ! i)
         else Inl (OrtException ''output index out of range'')),
      CreateCpu = Inr (),
      CreateTensor = (\<lambda>values shape.
         Inr \<lparr>tensor_elem = TensorFloat, tensor_dims = shape, tensor_data = values\<rparr>),
      Run = (\<lambda>m names ts outs.
         if matches_signature m names ts then Inr (model_infer m (map tensor_data ts))
         else Inl (OrtException ''input does not match the model signature'')),
      GetTensorMutableData = (\<lambda>t. Inr (tensor_data t)),
      show_float = fmt\<rparr>"

text \<open>The report of section 8: the counts and the names, in declaration order.\<close>

definition signature_report :: "string list \<Rightarrow> string list \<Rightarrow> string list" where
  "signature_report ins outs =
     [''Number of inputs = '' @ show_nat (length ins)] @
     map (\<lambda>(i, name). ''Input '' @ show_nat i @ '' : name='' @ name) (enumerate 0 ins) @
     [''Number of outputs = '' @ show_nat (length outs)] @
     map (\<lambda>(i, name). ''Output '' @ show_nat i @ '' : name='' @ name) (enumerate 0 outs)"

definition is_prediction_line :: "string \<Rightarrow> bool" where
  "is_prediction_line l = (take 12 l = ''Prediction: '')"

subsection \<open>Example models\<close>

text \<open>A model with the signature of the specification's scenario, one input \<open>input\<close> of
  shape \<open>[1, 4]\<close> and one output, and one that declares the shape \<open>[1, 5]\<close> instead.\<close>

definition forest_model :: model where
  "forest_model =
     \<lparr>model_inputs = [(''input'', TensorFloat, [1, 4])],
      model_outputs = [''output''],
      model_infer = (\<lambda>_. [\<lparr>tensor_elem = TensorFloat, tensor_dims = [1, 1],
                              tensor_data = [0x3F800000]\<rparr>])\<rparr>"

definition wide_model :: model where
  "wide_model = forest_model\<lparr>model_inputs := [(''input'', TensorFloat, [1, 5])]\<rparr>"

definition only_at :: "string \<Rightarrow> model \<Rightarrow> string \<Rightarrow> model option" where
  "only_at path m = (\<lambda>p. if p = path then Some m else None)"

definition fmt_hex :: "float32 \<Rightarrow> string" where
  "fmt_hex x = (if x = 0x3F800000 then ''1'' else ''?'')"

definition forest_runtime :: "(model, tensor) runtime" where
  "forest_runtime = spec_runtime (only_at model_path forest_model) fmt_hex"

definition wide_runtime :: "(model, tensor) runtime" where
  "wide_runtime = spec_runtime (only_at model_path wide_model) fmt_hex"

text \<open>A runtime whose \<^verbatim>\<open>Run\<close> throws \<^verbatim>\<open>std::bad_alloc\<close>, which is not an
  \<^verbatim>\<open>Ort::Exception\<close>.\<close>

definition bad_alloc_runtime :: "(model, tensor) runtime" where
  "bad_alloc_runtime =
     forest_runtime\<lparr>Run := (\<lambda>_ _ _ _. Inl (OtherException ''std::bad_alloc''))\<rparr>"

text \<open>A runtime whose \<^verbatim>\<open>CreateTensor\<close> throws the runtime's exception.\<close>

definition bad_tensor_runtime :: "(model, tensor) runtime" where
  "bad_tensor_runtime =
     forest_runtime\<lparr>CreateTensor := (\<lambda>_ _. Inl (OrtException ''bad shape''))\<rparr>"

subsection \<open>Hypotheses on an arbitrary runtime\<close>

text \<open>The calls of lines 17-29 succeed and the session constructor returns \<open>session\<close>.\<close>

definition opens :: "('s, 'v) runtime \<Rightarrow> 's \<Rightarrow> bool" where
  "opens rt session =
     (Env rt = Inr () \<and> SessionOptions rt = Inr () \<and> SetIntraOpNumThreads rt 1 = Inr () \<and>
      Session rt model_path = Inr session \<and> AllocatorWithDefaultOptions rt = Inr ())"

text \<open>The session reports the input names \<open>ins\<close> and the output names \<open>outs\<close>, index by
  index: the model's declared signature in declaration order.\<close>

definition declares :: "('s, 'v) runtime \<Rightarrow> 's \<Rightarrow> string list \<Rightarrow> string list \<Rightarrow> bool" where
  "declares rt session ins outs =
     (GetInputCount rt session = Inr (length ins) \<and>
      map (GetInputNameAllocated rt session) [0..<length ins] = map Inr ins \<and>
      GetOutputCount rt session = Inr (length outs) \<and>
      map (GetOutputNameAllocated rt session) [0..<length outs] = map Inr outs)"

subsection \<open>The call trace of a run\<close>

text \<open>Every call of the trace returned.\<close>

definition returned :: "(lib_call \<times> exn option) list \<Rightarrow> bool" where
  "returned tr = (\<forall>x \<in> set tr. snd x = None)"

text \<open>The trace agrees with the result of a step: when the step raised \<open>e\<close>, the last
  call of the trace threw \<open>e\<close> and every call before it returned; otherwise every call
  returned.\<close>

definition trace_agrees :: "(abort + 'a) \<times> state \<Rightarrow> bool" where
  "trace_agrees p =
     (case fst p of
        Inl (Raise e) \<Rightarrow>
          (\<exists>c. calls (snd p) \<noteq> [] \<and> last (calls (snd p)) = (c, Some e)) \<and>
          returned (butlast (calls (snd p)))
      | _ \<Rightarrow> returned (calls (snd p)))"

text \<open>Every call of the trace, thrown or returned, satisfies \<open>P\<close>.\<close>

definition only_calls :: "(lib_call \<Rightarrow> bool) \<Rightarrow> state \<Rightarrow> bool" where
  "only_calls P s = (\<forall>x \<in> set (calls s). P (fst x))"

text \<open>A call that is not the session constructor, or is it at the model path.\<close>

fun at_model_path :: "lib_call \<Rightarrow> bool" where
  "at_model_path (Call_Session p) = (p = model_path)"
| "at_model_path _ = True"

subsection \<open>The prediction line\<close>

text \<open>No line printed so far is a prediction line.\<close>

definition no_prediction :: "state \<Rightarrow> bool" where
  "no_prediction s = (filter is_prediction_line (out s) = [])"

subsection \<open>Moving the allocator\<close>

text \<open>The same state with every address moved up by \<open>d\<close>: what a run looks like when
  the allocator starts \<open>d\<close> addresses higher.\<close>

definition shift :: "nat \<Rightarrow> state \<Rightarrow> state" where
  "shift d s =
     s\<lparr>live := map (\<lambda>b. (fst b + d, snd b)) (live s), next_addr := next_addr s + d\<rparr>"

definition shift_ptrs :: "nat \<Rightarrow> addr option list \<Rightarrow> addr option list" where
  "shift_ptrs d = map (map_option (\<lambda>a. a + d))"

text \<open>\<open>m'\<close> does on the moved state what \<open>m\<close> does on the state, with the result
  moved by \<open>g\<close>.\<close>

definition moves_with ::
  "nat \<Rightarrow> ('a \<Rightarrow> 'b) \<Rightarrow> (state \<Rightarrow> (abort + 'a) \<times> state) \<Rightarrow>
   (state \<Rightarrow> (abort + 'b) \<times> state) \<Rightarrow> bool" where
  "moves_with d g m m' =
     (\<forall>s. m' (shift d s) = (map_sum id g (fst (m s)), shift d (snd (m s))))"

section \<open>Basic facts\<close>

lemma lib_simps [simp]:
  "lib c (Inl e) s = (Inl (Raise e), log_throw c e s)"
  "lib c (Inr v) s = (Inr v, log c s)"
  by (simp_all add: lib_def)

lemma and_then_simps [simp]:
  "m s = (Inl a, s') \<Longrightarrow> and_then m f s = (Inl a, s')"
  "m s = (Inr v, s') \<Longrightarrow> and_then m f s = f v s'"
  by (simp_all add: and_then_def)

lemma log_fields [simp]:
  "out (log c s) = out s" "live (log c s) = live s" "next_addr (log c s) = next_addr s"
  "invalid_frees (log c s) = invalid_frees s" "calls (log c s) = calls s @ [(c, None)]"
  by (simp_all add: log_def)

lemma log_throw_fields [simp]:
  "out (log_throw c e s) = out s" "live (log_throw c e s) = live s"
  "next_addr (log_throw c e s) = next_addr s"
  "invalid_frees (log_throw c e s) = invalid_frees s"
  "calls (log_throw c e s) = calls s @ [(c, Some e)]"
  by (simp_all add: log_throw_def)

lemma print_fields [simp]:
  "out (print l s) = out s @ [l]" "live (print l s) = live s"
  "next_addr (print l s) = next_addr s"
  "invalid_frees (print l s) = invalid_frees s" "calls (print l s) = calls s"
  by (simp_all add: print_def)

lemma name_step_fields [simp]:
  "out (name_step label c i str s) = out s @ [label @ show_nat i @ '' : name='' @ str]"
  "live (name_step label c i str s) = (next_addr s, str) # live s"
  "next_addr (name_step label c i str s) = Suc (next_addr s)"
  "invalid_frees (name_step label c i str s) = invalid_frees s"
  "calls (name_step label c i str s) = calls s @ [(c, None)]"
  by (simp_all add: name_step_def alloc_def)

subsection \<open>The name loops\<close>

lemma name_loop_done [simp]:
  "\<not> i < n \<Longrightarrow> name_loop label c get i n names s = (Inr names, s)"
  by (simp add: name_loop.simps)

lemma name_loop_step:
  "i < n \<Longrightarrow> get i = Inr str \<Longrightarrow>
   name_loop label c get i n names s =
   name_loop label c get (Suc i) n (names[i := Some (next_addr s)])
     (name_step label (c i) i str s)"
  by (subst name_loop.simps)
     (simp add: alloc_def deref_def read_str_def name_step_def log_def)

lemma name_loop_raise:
  "i < n \<Longrightarrow> get i = Inl e \<Longrightarrow>
   name_loop label c get i n names s = (Inl (Raise e), log_throw (c i) e s)"
  by (subst name_loop.simps) simp

text \<open>When every session call of the loop returns a name, the loop stores one fresh
  address per index, prints one line per name and leaves one live block per name.\<close>

lemma name_loop_success:
  assumes "\<And>j. i \<le> j \<Longrightarrow> j < n \<Longrightarrow> get j = Inr (nm j)" and "length names = n"
  shows "fst (name_loop label c get i n names s) =
           Inr (take i names @ map (\<lambda>j. Some (next_addr s + (j - i))) [i..<n]) \<and>
         out (snd (name_loop label c get i n names s)) =
           out s @ map (\<lambda>j. label @ show_nat j @ '' : name='' @ nm j) [i..<n] \<and>
         live (snd (name_loop label c get i n names s)) =
           rev (map (\<lambda>j. (next_addr s + (j - i), nm j)) [i..<n]) @ live s \<and>
         next_addr (snd (name_loop label c get i n names s)) = next_addr s + (n - i) \<and>
         invalid_frees (snd (name_loop label c get i n names s)) = invalid_frees s \<and>
         calls (snd (name_loop label c get i n names s)) =
           calls s @ map (\<lambda>j. (c j, None)) [i..<n]"
  using assms
proof (induction "n - i" arbitrary: i names s)
  case 0
  then show ?case by simp
next
  case (Suc k)
  then have lt: "i < n" by simp
  have g: "get i = Inr (nm i)" using Suc.prems(1) lt by simp
  have k: "k = n - Suc i" using Suc.hyps(2) by simp
  have ar: "Suc (next_addr s) + (j - Suc i) = next_addr s + (j - i)"
    if "j \<in> set [Suc i..<n]" for j
    using that by auto
  have shift: "map (\<lambda>j. Some (Suc (next_addr s) + (j - Suc i))) [Suc i..<n] =
        map (\<lambda>j. Some (next_addr s + (j - i))) [Suc i..<n]"
    using ar by (metis (no_types, lifting) map_cong)
  have shift2: "map (\<lambda>j. (Suc (next_addr s) + (j - Suc i), nm j)) [Suc i..<n] =
        map (\<lambda>j. (next_addr s + (j - i), nm j)) [Suc i..<n]"
    using ar by (metis (no_types, lifting) map_cong)
  have tk: "take (Suc i) (names[i := Some (next_addr s)]) = take i names @ [Some (next_addr s)]"
    using lt Suc.prems(2) by (simp add: take_Suc_conv_app_nth)
  have up: "[i..<n] = i # [Suc i..<n]" using lt by (simp add: upt_conv_Cons)
  have p1: "\<And>j. Suc i \<le> j \<Longrightarrow> j < n \<Longrightarrow> get j = Inr (nm j)"
    using Suc.prems(1) by simp
  have p2: "length (names[i := Some (next_addr s)]) = n"
    using Suc.prems(2) by simp
  note ih = Suc.hyps(1) [OF k p1 p2, where s = "name_step label (c i) i (nm i) s"]
  show ?case
    unfolding name_loop_step [of i n get "nm i", OF lt g]
    using ih lt unfolding name_step_fields shift shift2 tk
    by (subst (1 2 3 4) up) (simp del: upt_Suc)
qed

lemma declared_nth:
  assumes "map get [0..<length xs] = map Inr xs" and "j < length xs"
  shows "get j = Inr (xs ! j)"
proof -
  have "map get [0..<length xs] ! j = map Inr xs ! j" using assms(1) by simp
  then show ?thesis using assms(2) by simp
qed

lemma upt_offsets: "map (\<lambda>j. f (a + j)) [0..<n] = map f [a..<a + n]"
proof -
  have "map f [a..<a + n] = map f (map (\<lambda>j. j + a) [0..<n])"
    by (simp only: map_add_upt add.commute)
  then show ?thesis by (simp add: comp_def add.commute)
qed

lemma indexed_map: "map (\<lambda>j. f j (xs ! j)) [0..<length xs] = map (\<lambda>(i, x). f i x) (enumerate 0 xs)"
  by (rule nth_equalityI) (simp_all add: nth_enumerate_eq)

lemma indexed_zip: "map (\<lambda>j. (a + j, xs ! j)) [0..<length xs] = zip [a..<a + length xs] xs"
  by (rule nth_equalityI) simp_all

lemma name_loop_all:
  assumes "map get [0..<length xs] = map Inr xs"
  shows "fst (name_loop label c get 0 (length xs) (replicate (length xs) None) s) =
           Inr (map Some [next_addr s..<next_addr s + length xs])"
    and "out (snd (name_loop label c get 0 (length xs) (replicate (length xs) None) s)) =
           out s @ map (\<lambda>(i, x). label @ show_nat i @ '' : name='' @ x) (enumerate 0 xs)"
    and "live (snd (name_loop label c get 0 (length xs) (replicate (length xs) None) s)) =
           rev (zip [next_addr s..<next_addr s + length xs] xs) @ live s"
    and "next_addr (snd (name_loop label c get 0 (length xs) (replicate (length xs) None) s)) =
           next_addr s + length xs"
    and "invalid_frees (snd (name_loop label c get 0 (length xs) (replicate (length xs) None) s)) =
           invalid_frees s"
    and "calls (snd (name_loop label c get 0 (length xs) (replicate (length xs) None) s)) =
           calls s @ map (\<lambda>j. (c j, None)) [0..<length xs]"
proof -
  have g: "\<And>j. 0 \<le> j \<Longrightarrow> j < length xs \<Longrightarrow> get j = Inr (xs ! j)"
    using declared_nth [OF assms] by simp
  have l: "length (replicate (length xs) (None :: addr option)) = length xs" by simp
  note r = name_loop_success [OF g l, where label = label and c = c and s = s]
  show "fst (name_loop label c get 0 (length xs) (replicate (length xs) None) s) =
           Inr (map Some [next_addr s..<next_addr s + length xs])"
    using r upt_offsets [of Some "next_addr s" "length xs"] by simp
  show "out (snd (name_loop label c get 0 (length xs) (replicate (length xs) None) s)) =
           out s @ map (\<lambda>(i, x). label @ show_nat i @ '' : name='' @ x) (enumerate 0 xs)"
    using r indexed_map [of "\<lambda>j x. label @ show_nat j @ '' : name='' @ x" xs] by simp
  show "live (snd (name_loop label c get 0 (length xs) (replicate (length xs) None) s)) =
           rev (zip [next_addr s..<next_addr s + length xs] xs) @ live s"
    using r indexed_zip [of "next_addr s" xs] by simp
  show "next_addr (snd (name_loop label c get 0 (length xs) (replicate (length xs) None) s)) =
           next_addr s + length xs"
    using r by simp
  show "invalid_frees (snd (name_loop label c get 0 (length xs) (replicate (length xs) None) s)) =
           invalid_frees s"
    using r by simp
  show "calls (snd (name_loop label c get 0 (length xs) (replicate (length xs) None) s)) =
           calls s @ map (\<lambda>j. (c j, None)) [0..<length xs]"
    using r by simp
qed

lemma and_then_fst: "fst (m s) = Inr v \<Longrightarrow> and_then m f s = f v (snd (m s))"
  by (cases "m s") (simp add: and_then_def)

subsection \<open>The report of the signature\<close>

lemma report_names_declared:
  assumes ic: "GetInputCount rt session = Inr (length ins)"
    and inames: "map (GetInputNameAllocated rt session) [0..<length ins] = map Inr ins"
    and oc: "GetOutputCount rt session = Inr (length outs)"
    and onames: "map (GetOutputNameAllocated rt session) [0..<length outs] = map Inr outs"
  shows "fst (report_names rt session s) =
           Inr (map Some [next_addr s..<next_addr s + length ins],
                map Some [next_addr s + length ins..<next_addr s + length ins + length outs])"
    and "out (snd (report_names rt session s)) = out s @ signature_report ins outs"
    and "live (snd (report_names rt session s)) =
           rev (zip [next_addr s + length ins..<next_addr s + length ins + length outs] outs) @
           rev (zip [next_addr s..<next_addr s + length ins] ins) @ live s"
    and "next_addr (snd (report_names rt session s)) = next_addr s + length ins + length outs"
    and "invalid_frees (snd (report_names rt session s)) = invalid_frees s"
    and "calls (snd (report_names rt session s)) =
           calls s @ [(Call_GetInputCount, None)] @
           map (\<lambda>j. (Call_GetInputNameAllocated j, None)) [0..<length ins] @
           [(Call_GetOutputCount, None)] @
           map (\<lambda>j. (Call_GetOutputNameAllocated j, None)) [0..<length outs]"
proof -
  let ?s1 = "print (''Number of inputs = '' @ show_nat (length ins)) (log Call_GetInputCount s)"
  let ?l1 = "name_loop ''Input '' Call_GetInputNameAllocated (GetInputNameAllocated rt session)
               0 (length ins) (replicate (length ins) None) ?s1"
  let ?s2 = "print (''Number of outputs = '' @ show_nat (length outs))
               (log Call_GetOutputCount (snd ?l1))"
  let ?l2 = "name_loop ''Output '' Call_GetOutputNameAllocated (GetOutputNameAllocated rt session)
               0 (length outs) (replicate (length outs) None) ?s2"
  note a = name_loop_all [OF inames, where label = "''Input ''"
      and c = Call_GetInputNameAllocated and s = ?s1]
  note b = name_loop_all [OF onames, where label = "''Output ''"
      and c = Call_GetOutputNameAllocated and s = ?s2]
  have r: "report_names rt session s =
             (Inr (map Some [next_addr s..<next_addr s + length ins],
                   map Some [next_addr s + length ins..<next_addr s + length ins + length outs]),
              snd ?l2)"
    unfolding report_names_def using a(1) b(1) a(4)
    by (simp add: ic oc and_then_fst)
  show "fst (report_names rt session s) =
           Inr (map Some [next_addr s..<next_addr s + length ins],
                map Some [next_addr s + length ins..<next_addr s + length ins + length outs])"
    by (simp add: r)
  show "out (snd (report_names rt session s)) = out s @ signature_report ins outs"
    unfolding r using a(2) b(2) by (simp add: signature_report_def)
  show "live (snd (report_names rt session s)) =
           rev (zip [next_addr s + length ins..<next_addr s + length ins + length outs] outs) @
           rev (zip [next_addr s..<next_addr s + length ins] ins) @ live s"
    unfolding r using a(3,4) b(3) by simp
  show "next_addr (snd (report_names rt session s)) = next_addr s + length ins + length outs"
    unfolding r using a(4) b(4) by simp
  show "invalid_frees (snd (report_names rt session s)) = invalid_frees s"
    unfolding r using a(5) b(5) by simp
  show "calls (snd (report_names rt session s)) =
           calls s @ [(Call_GetInputCount, None)] @
           map (\<lambda>j. (Call_GetInputNameAllocated j, None)) [0..<length ins] @
           [(Call_GetOutputCount, None)] @
           map (\<lambda>j. (Call_GetOutputNameAllocated j, None)) [0..<length outs]"
    unfolding r using a(6) b(6) by simp
qed

subsection \<open>Reading and freeing the name strings\<close>

lemma lookup_block:
  assumes "j < length xs"
  shows "map_of (rev (zip [a..<a + length xs] xs) @ rest) (a + j) = Some (xs ! j)"
proof -
  have d: "distinct (map fst (rev (zip [a..<a + length xs] xs)))"
    by (simp add: rev_map [symmetric])
  have "(a + j, xs ! j) \<in> set (rev (zip [a..<a + length xs] xs))"
    using assms by (auto simp: set_zip intro!: exI [of _ j])
  then have "map_of (rev (zip [a..<a + length xs] xs)) (a + j) = Some (xs ! j)"
    using d by (simp only: map_of_eq_Some_iff)
  then show ?thesis by (simp add: map_add_Some_iff)
qed

lemma lookup_skip:
  assumes "k \<notin> set ks" and "length ks = length xs"
  shows "map_of (rev (zip ks xs) @ rest) k = map_of rest k"
proof -
  have "fst ` set (zip ks xs) = set (map fst (zip ks xs))" by simp
  also have "\<dots> = set ks" using assms(2) by (simp only: map_fst_zip)
  finally have "map_of (rev (zip ks xs)) k = None"
    using assms(1) by (simp add: map_of_eq_None_iff)
  then show ?thesis by (simp add: map_add_def)
qed

lemma deref_Some: "read_str s a = Some x \<Longrightarrow> deref (Some a) s = (Inr x, s)"
  by (simp add: deref_def)

lemma deref_all_Some:
  "map (read_str s) as = map Some xs \<Longrightarrow> deref_all (map Some as) s = (Inr xs, s)"
proof (induction as arbitrary: xs)
  case Nil
  then show ?case by simp
next
  case (Cons a as)
  then obtain y ys where xs: "xs = y # ys" by (cases xs) auto
  with Cons show ?case by (simp add: deref_Some)
qed

lemma deref_state: "snd (deref p s) = s"
  by (simp add: deref_def split: option.splits)

lemma deref_all_state: "snd (deref_all ps s) = s"
proof (induction ps)
  case Nil
  then show ?case by simp
next
  case (Cons p ps)
  show ?case
  proof (cases "deref p s")
    case (Pair r s1)
    then have s1: "s1 = s" using deref_state [of p s] by simp
    show ?thesis
    proof (cases "deref_all ps s")
      case (Pair r2 s2)
      then have "s2 = s" using Cons.IH by simp
      with Pair \<open>deref p s = (r, s1)\<close> s1 show ?thesis
        by (cases r; cases r2) (simp_all add: and_then_def)
    qed
  qed
qed

lemma Free_fields [simp]:
  "out (Free p s) = out s" "next_addr (Free p s) = next_addr s" "calls (Free p s) = calls s"
  by (cases p; simp)+

lemma fold_Free_fields [simp]:
  "out (fold Free ps s) = out s" "next_addr (fold Free ps s) = next_addr s"
  "calls (fold Free ps s) = calls s"
  by (induction ps arbitrary: s) simp_all

lemma cleanup_fields [simp]:
  "out (cleanup ins outs s) = out s" "next_addr (cleanup ins outs s) = next_addr s"
  "calls (cleanup ins outs s) = calls s"
  by (simp_all add: cleanup_def)

lemma fold_Free_live:
  assumes "distinct as" and "set as \<subseteq> fst ` set (live s)"
  shows "live (fold Free (map Some as) s) = filter (\<lambda>b. fst b \<notin> set as) (live s) \<and>
         invalid_frees (fold Free (map Some as) s) = invalid_frees s"
  using assms
proof (induction as arbitrary: s)
  case Nil
  then show ?case by simp
next
  case (Cons a as)
  let ?s = "s\<lparr>live := filter (\<lambda>b. fst b \<noteq> a) (live s)\<rparr>"
  have mem: "a \<in> fst ` set (live s)" using Cons.prems(2) by simp
  have sub: "set as \<subseteq> fst ` set (live ?s)"
  proof
    fix x assume x: "x \<in> set as"
    then have "x \<noteq> a" using Cons.prems(1) by auto
    moreover obtain b where "b \<in> set (live s)" and "fst b = x"
      using x Cons.prems(2) by auto
    ultimately show "x \<in> fst ` set (live ?s)" by force
  qed
  have d: "distinct as" using Cons.prems(1) by simp
  from Cons.IH [OF d sub] show ?case
    by (simp add: mem conj_commute)
qed

subsection \<open>Opening the session and running the inference\<close>

lemma deref_stateD: "deref p s = (r, s') \<Longrightarrow> s' = s"
  using deref_state [of p s] by simp

lemma deref_all_stateD: "deref_all ps s = (r, s') \<Longrightarrow> s' = s"
  using deref_all_state [of ps s] by simp

lemma open_session_opens:
  "opens rt session \<Longrightarrow>
   open_session rt s =
     (Inr session,
      log Call_AllocatorWithDefaultOptions (log (Call_Session model_path)
        (log (Call_SetIntraOpNumThreads 1) (log Call_SessionOptions (log Call_Env s)))))"
  by (simp add: opens_def open_session_def)

lemma open_session_heap:
  "live (snd (open_session rt s)) = live s \<and> next_addr (snd (open_session rt s)) = next_addr s \<and>
   invalid_frees (snd (open_session rt s)) = invalid_frees s \<and>
   out (snd (open_session rt s)) = out s"
  by (simp add: open_session_def and_then_def lib_def split: sum.splits prod.splits)

lemma run_inference_effect:
  assumes "run_inference rt session ins outs s = (r, s')"
  shows "live s' = live s \<and> next_addr s' = next_addr s \<and> invalid_frees s' = invalid_frees s \<and>
         (case r of
            Inl _ \<Rightarrow> out s' = out s
          | Inr _ \<Rightarrow> (\<exists>x. out s' = out s @ [''Prediction: '' @ show_float rt x]))"
  using assms
  by (auto simp: run_inference_def and_then_def lib_def
      split: sum.splits prod.splits list.splits option.splits
      dest!: deref_all_stateD deref_stateD)

lemma try_body_after_report:
  fixes base :: addr
  assumes o: "opens rt session" and d: "declares rt session ins outs"
  defines "s2 \<equiv> snd (report_names rt session (snd (open_session rt (init base))))"
  defines "pi \<equiv> map Some [base..<base + length ins]"
  defines "po \<equiv> map Some [base + length ins..<base + length ins + length outs]"
  shows "try_body rt (init base) =
           (case run_inference rt session pi po s2 of
              (Inl a, s3) \<Rightarrow> (Inl a, s3)
            | (Inr u, s3) \<Rightarrow> (Inr (), cleanup pi po s3))"
    and "out s2 = signature_report ins outs"
    and "live s2 = rev (zip [base + length ins..<base + length ins + length outs] outs) @
                   rev (zip [base..<base + length ins] ins)"
    and "next_addr s2 = base + length ins + length outs"
    and "invalid_frees s2 = 0"
proof -
  let ?s1 = "snd (open_session rt (init base))"
  have os: "fst (open_session rt (init base)) = Inr session"
    using open_session_opens [OF o] by simp
  have h1: "live ?s1 = []" "next_addr ?s1 = base" "invalid_frees ?s1 = 0" "out ?s1 = []"
    using open_session_heap [of rt "init base"] by (simp_all add: init_def)
  from d have dd: "GetInputCount rt session = Inr (length ins)"
    "map (GetInputNameAllocated rt session) [0..<length ins] = map Inr ins"
    "GetOutputCount rt session = Inr (length outs)"
    "map (GetOutputNameAllocated rt session) [0..<length outs] = map Inr outs"
    by (simp_all add: declares_def)
  note rn = report_names_declared [OF dd, of ?s1]
  have rp: "fst (report_names rt session ?s1) = Inr (pi, po)"
    using rn(1) h1(2) unfolding pi_def po_def by simp
  have "try_body rt (init base) =
          and_then (report_names rt session) (\<lambda>(input_node_names, output_node_names).
            and_then (run_inference rt session input_node_names output_node_names) (\<lambda>_.
              (\<lambda>s. (Inr (), cleanup input_node_names output_node_names s)))) ?s1"
    unfolding try_body_def by (rule and_then_fst [of "open_session rt" "init base", OF os])
  also have "\<dots> =
          and_then (run_inference rt session pi po) (\<lambda>_. (\<lambda>s. (Inr (), cleanup pi po s))) s2"
    unfolding s2_def by (simp add: and_then_fst [of "report_names rt session" ?s1, OF rp])
  finally show "try_body rt (init base) =
           (case run_inference rt session pi po s2 of
              (Inl a, s3) \<Rightarrow> (Inl a, s3)
            | (Inr u, s3) \<Rightarrow> (Inr (), cleanup pi po s3))"
    by (simp add: and_then_def)
  show "out s2 = signature_report ins outs" using rn(2) h1 by (simp add: s2_def)
  show "live s2 = rev (zip [base + length ins..<base + length ins + length outs] outs) @
                   rev (zip [base..<base + length ins] ins)"
    using rn(3) h1 by (simp add: s2_def)
  show "next_addr s2 = base + length ins + length outs" using rn(4) h1 by (simp add: s2_def)
  show "invalid_frees s2 = 0" using rn(5) h1 by (simp add: s2_def)
qed

lemma names_readable:
  assumes "live s = rev (zip [b + length ins..<b + length ins + length outs] outs) @
                    rev (zip [b..<b + length ins] ins)"
  shows "j < length ins \<Longrightarrow> read_str s (b + j) = Some (ins ! j)"
    and "map (read_str s) [b + length ins..<b + length ins + length outs] = map Some outs"
proof -
  show "read_str s (b + j) = Some (ins ! j)" if "j < length ins"
  proof -
    have "b + j \<notin> set [b + length ins..<b + length ins + length outs]"
      using that by simp
    then have "read_str s (b + j) = map_of (rev (zip [b..<b + length ins] ins) @ []) (b + j)"
      unfolding read_str_def assms by (subst lookup_skip) simp_all
    then show ?thesis using lookup_block [OF that, of b "[]"] by simp
  qed
  show "map (read_str s) [b + length ins..<b + length ins + length outs] = map Some outs"
  proof (rule nth_equalityI)
    show "length (map (read_str s) [b + length ins..<b + length ins + length outs]) =
          length (map Some outs)" by simp
  next
    fix i assume "i < length (map (read_str s) [b + length ins..<b + length ins + length outs])"
    then have i: "i < length outs" by simp
    have "read_str s (b + length ins + i) = Some (outs ! i)"
      unfolding read_str_def assms using lookup_block [OF i, of "b + length ins"] by simp
    then show "map (read_str s) [b + length ins..<b + length ins + length outs] ! i =
          map Some outs ! i" using i by simp
  qed
qed

subsection \<open>Which runs free the name strings\<close>

text \<open>When the session opens and reports its signature, the name strings are all freed
  (each once) if the program returns 0, and are all still allocated otherwise.\<close>

lemma zip_keys: "length ks = length xs \<Longrightarrow> fst ` set (zip ks xs) = set ks"
  by (metis set_map map_fst_zip)

lemma cleanup_frees_all:
  assumes l: "live s = rev (zip [b + length ins..<b + length ins + length outs] outs) @
                    rev (zip [b..<b + length ins] ins)"
  shows "live (cleanup (map Some [b..<b + length ins])
                 (map Some [b + length ins..<b + length ins + length outs]) s) = []"
    and "invalid_frees (cleanup (map Some [b..<b + length ins])
                 (map Some [b + length ins..<b + length ins + length outs]) s) = invalid_frees s"
proof -
  let ?is = "[b..<b + length ins]"
  let ?os = "[b + length ins..<b + length ins + length outs]"
  let ?s1 = "fold Free (map Some ?is) s"
  have keys: "fst ` set (live s) = set ?os \<union> set ?is"
    unfolding l by (simp add: image_Un zip_keys del: set_upt)
  have a: "live ?s1 = filter (\<lambda>x. fst x \<notin> set ?is) (live s) \<and>
           invalid_frees ?s1 = invalid_frees s"
    by (rule fold_Free_live) (simp_all add: keys)
  have f1: "filter (\<lambda>x. fst x \<notin> set ?is) (rev (zip ?is ins)) = []"
    by (auto simp: filter_empty_conv dest: set_zip_leftD)
  have f2: "filter (\<lambda>x. fst x \<notin> set ?is) (rev (zip ?os outs)) = rev (zip ?os outs)"
    by (auto simp: filter_id_conv dest!: set_zip_leftD)
  have l1: "live ?s1 = rev (zip ?os outs)"
    using a unfolding l filter_append f1 f2 by simp
  have keys1: "fst ` set (live ?s1) = set ?os"
    unfolding l1 by (simp add: zip_keys del: set_upt)
  have b: "live (fold Free (map Some ?os) ?s1) = filter (\<lambda>x. fst x \<notin> set ?os) (live ?s1) \<and>
           invalid_frees (fold Free (map Some ?os) ?s1) = invalid_frees ?s1"
    by (rule fold_Free_live) (simp_all add: keys1)
  have f3: "filter (\<lambda>x. fst x \<notin> set ?os) (rev (zip ?os outs)) = []"
    by (auto simp: filter_empty_conv dest: set_zip_leftD)
  show "live (cleanup (map Some ?is) (map Some ?os) s) = []"
    using b unfolding cleanup_def l1 f3 by simp
  show "invalid_frees (cleanup (map Some ?is) (map Some ?os) s) = invalid_frees s"
    using a b by (simp add: cleanup_def)
qed

lemma names_freed_iff_success:
  assumes "opens rt session" and "declares rt session ins outs"
  shows "live (snd (main rt base)) =
           (if fst (main rt base) = Exit 0 then []
            else rev (zip [base + length ins..<base + length ins + length outs] outs) @
                 rev (zip [base..<base + length ins] ins))"
    and "invalid_frees (snd (main rt base)) = 0"
proof -
  let ?s2 = "snd (report_names rt session (snd (open_session rt (init base))))"
  let ?pi = "map Some [base..<base + length ins]"
  let ?po = "map Some [base + length ins..<base + length ins + length outs]"
  note tb = try_body_after_report [OF assms, of base]
  obtain r s3 where ri: "run_inference rt session ?pi ?po ?s2 = (r, s3)"
    by (cases "run_inference rt session ?pi ?po ?s2")
  note eff = run_inference_effect [OF ri]
  have l3: "live s3 = rev (zip [base + length ins..<base + length ins + length outs] outs) @
                 rev (zip [base..<base + length ins] ins)"
    using eff tb(3) by simp
  have i3: "invalid_frees s3 = 0" using eff tb(5) by simp
  note cl = cleanup_frees_all [OF l3]
  have "live (snd (main rt base)) =
           (if fst (main rt base) = Exit 0 then []
            else rev (zip [base + length ins..<base + length ins + length outs] outs) @
                 rev (zip [base..<base + length ins] ins)) \<and>
        invalid_frees (snd (main rt base)) = 0"
  proof (cases r)
    case (Inr u)
    then show ?thesis using ri tb(1) cl i3 by (simp add: main_def)
  next
    case (Inl a)
    show ?thesis
    proof (cases a)
      case Undefined
      then show ?thesis using Inl ri tb(1) l3 i3 by (simp add: main_def)
    next
      case (Raise e)
      then show ?thesis using Inl ri tb(1) l3 i3 by (cases e) (simp_all add: main_def)
    qed
  qed
  then show "live (snd (main rt base)) =
           (if fst (main rt base) = Exit 0 then []
            else rev (zip [base + length ins..<base + length ins + length outs] outs) @
                 rev (zip [base..<base + length ins] ins))"
    and "invalid_frees (snd (main rt base)) = 0"
    by simp_all
qed

subsection \<open>The session constructor is applied to one path\<close>

lemma report_names_indep: "report_names (rt\<lparr>Session := f\<rparr>) = report_names rt"
  by (simp add: report_names_def fun_eq_iff)

lemma run_inference_indep: "run_inference (rt\<lparr>Session := f\<rparr>) = run_inference rt"
  by (simp add: run_inference_def fun_eq_iff cong: list.case_cong)

subsection \<open>The runtime of the specification\<close>

lemma spec_runtime_opens:
  "files model_path = Some m \<Longrightarrow> opens (spec_runtime files fmt) m"
  by (simp add: opens_def spec_runtime_def)

lemma spec_runtime_declares:
  "declares (spec_runtime files fmt) m (map fst (model_inputs m)) (model_outputs m)"
proof -
  have "map (\<lambda>i. if i < length xs then Inr (f (xs ! i)) else Inl e) [0..<length xs] =
        map Inr (map f xs)" for f :: "'a \<Rightarrow> string" and xs and e :: exn
    by (rule nth_equalityI) simp_all
  from this [of "model_inputs m" fst] this [of "model_outputs m" "\<lambda>x. x"]
  show ?thesis by (simp add: declares_def spec_runtime_def)
qed

lemma run_inference_reaches_Run:
  assumes l: "live s = rev (zip [b + length ins..<b + length ins + length outs] outs) @
                    rev (zip [b..<b + length ins] ins)"
    and ne: "ins \<noteq> []"
    and c: "CreateCpu rt = Inr ()"
    and t: "CreateTensor rt input_tensor_values input_tensor_shape = Inr input_tensor"
    and r: "Run rt session [hd ins] [input_tensor] outs = Inl e"
  shows "run_inference rt session (map Some [b..<b + length ins])
           (map Some [b + length ins..<b + length ins + length outs]) s =
         (Inl (Raise e), log_throw Call_Run e (log Call_CreateTensor (log Call_CreateCpu s)))"
proof -
  let ?s = "log Call_CreateTensor (log Call_CreateCpu s)"
  have l': "live ?s = rev (zip [b + length ins..<b + length ins + length outs] outs) @
                    rev (zip [b..<b + length ins] ins)"
    using l by simp
  have pos: "0 < length ins" using ne by simp
  have up: "[b..<b + length ins] = b # [Suc b..<b + length ins]"
    using pos by (simp add: upt_conv_Cons)
  have "read_str ?s (b + 0) = Some (ins ! 0)"
    by (rule names_readable(1) [OF l' pos])
  then have d1: "deref (Some b) ?s = (Inr (hd ins), ?s)"
    using ne by (simp add: deref_Some hd_conv_nth)
  have d2: "deref_all (map Some [b + length ins..<b + length ins + length outs]) ?s =
              (Inr outs, ?s)"
    by (rule deref_all_Some) (rule names_readable(2) [OF l'])
  show ?thesis
    unfolding run_inference_def
    by (subst up) (simp add: c t d1 d2 r)
qed

subsection \<open>The call trace\<close>

text \<open>Every step keeps the trace in agreement with its result, so a call that threw is
  always the last call of the run.\<close>

lemma trace_lib: "returned (calls s) \<Longrightarrow> trace_agrees (lib c r s)"
  by (cases r) (simp_all add: trace_agrees_def returned_def)

lemma trace_pure: "returned (calls s) \<Longrightarrow> trace_agrees (Inr v, s)"
  by (simp add: trace_agrees_def)

lemma trace_undefined: "returned (calls s) \<Longrightarrow> trace_agrees (Inl Undefined, s)"
  by (simp add: trace_agrees_def)

lemma trace_and_then:
  assumes "returned (calls s)"
    and "\<And>s. returned (calls s) \<Longrightarrow> trace_agrees (m s)"
    and "\<And>v s. returned (calls s) \<Longrightarrow> trace_agrees (f v s)"
  shows "trace_agrees (and_then m f s)"
proof (cases "m s")
  case (Pair r s')
  have t: "trace_agrees (r, s')" using assms(1,2) Pair by metis
  show ?thesis
  proof (cases r)
    case (Inl a)
    then show ?thesis using t Pair by (cases a) (simp_all add: and_then_def trace_agrees_def)
  next
    case (Inr v)
    then have "returned (calls s')" using t by (simp add: trace_agrees_def)
    then show ?thesis using assms(3) Pair Inr by (simp add: and_then_def)
  qed
qed

lemma trace_deref: "returned (calls s) \<Longrightarrow> trace_agrees (deref p s)"
  by (simp add: deref_def trace_agrees_def split: option.splits)

lemma trace_deref_all: "returned (calls s) \<Longrightarrow> trace_agrees (deref_all ps s)"
proof (induction ps arbitrary: s)
  case Nil
  then show ?case by (simp add: trace_pure)
next
  case (Cons p ps)
  show ?case
    unfolding deref_all.simps
    by (intro trace_and_then trace_deref trace_pure Cons.IH | rule Cons.prems | assumption)+
qed

lemma trace_name_loop:
  "returned (calls s) \<Longrightarrow> trace_agrees (name_loop label c get i n names s)"
proof (induction "n - i" arbitrary: i names s)
  case 0
  then show ?case by (simp add: trace_pure)
next
  case (Suc k)
  then have lt: "i < n" and k: "k = n - Suc i" by simp_all
  show ?case
  proof (cases "get i")
    case (Inl e)
    then show ?thesis
      using Suc.prems
      by (simp add: name_loop_raise [of i n get e, OF lt] trace_agrees_def returned_def)
  next
    case (Inr str)
    have "returned (calls (name_step label (c i) i str s))"
      using Suc.prems by (simp add: returned_def)
    from Suc.hyps(1) [OF k this] show ?thesis
      by (simp add: name_loop_step [of i n get str, OF lt Inr])
  qed
qed

lemma trace_open_session: "returned (calls s) \<Longrightarrow> trace_agrees (open_session rt s)"
  unfolding open_session_def
  by (intro trace_and_then trace_lib trace_pure | assumption)+

lemma trace_print: "returned (calls s) \<Longrightarrow> trace_agrees (Inr v, print l s)"
  by (simp add: trace_agrees_def)

lemma trace_report_names: "returned (calls s) \<Longrightarrow> trace_agrees (report_names rt session s)"
  unfolding report_names_def
  by (intro trace_and_then trace_lib trace_pure trace_print trace_name_loop | assumption)+

lemma trace_first_name:
  "returned (calls s) \<Longrightarrow>
   trace_agrees (case ps of [] \<Rightarrow> (Inl Undefined, s) | p # x \<Rightarrow> deref p s)"
  by (cases ps) (simp_all add: trace_undefined trace_deref)

lemma trace_first_tensor:
  "returned (calls s) \<Longrightarrow>
   trace_agrees (case ts of [] \<Rightarrow> (Inl Undefined, s) | t # x \<Rightarrow> lib c (g t) s)"
  by (cases ts) (simp_all add: trace_undefined trace_lib)

lemma trace_first_float:
  "returned (calls s) \<Longrightarrow>
   trace_agrees (case xs of [] \<Rightarrow> (Inl Undefined, s) | x # y \<Rightarrow> (Inr v, print (f x) s))"
  by (cases xs) (simp_all add: trace_undefined trace_print)

lemma trace_run_inference:
  "returned (calls s) \<Longrightarrow> trace_agrees (run_inference rt session ins outs s)"
  unfolding run_inference_def
  by (intro trace_and_then trace_lib trace_deref_all trace_first_name trace_first_tensor
      trace_first_float | assumption)+

lemma trace_cleanup:
  "returned (calls s) \<Longrightarrow> trace_agrees (Inr v, cleanup ins outs s)"
  by (simp add: trace_agrees_def)

lemma trace_try_body: "returned (calls s) \<Longrightarrow> trace_agrees (try_body rt s)"
  unfolding try_body_def split_beta
  by (intro trace_and_then trace_open_session trace_report_names trace_run_inference
      trace_cleanup | assumption)+

lemma main_calls: "calls (snd (main rt base)) = calls (snd (try_body rt (init base)))"
  by (cases "try_body rt (init base)")
     (simp add: main_def split: sum.splits abort.splits exn.splits)

subsection \<open>Moving the allocator\<close>

text \<open>Every step of the program commutes with moving all addresses by \<open>d\<close>.\<close>

lemma shift_fields [simp]:
  "out (shift d s) = out s" "live (shift d s) = map (\<lambda>b. (fst b + d, snd b)) (live s)"
  "next_addr (shift d s) = next_addr s + d" "invalid_frees (shift d s) = invalid_frees s"
  "calls (shift d s) = calls s"
  by (simp_all add: shift_def)

lemma shift_log: "log c (shift d s) = shift d (log c s)"
  by (simp add: shift_def log_def)

lemma shift_log_throw: "log_throw c e (shift d s) = shift d (log_throw c e s)"
  by (simp add: shift_def log_throw_def)

lemma shift_print: "print l (shift d s) = shift d (print l s)"
  by (simp add: shift_def print_def)

lemma shift_init: "init (base + d) = shift d (init base)"
  by (simp add: shift_def init_def)

lemma shift_name_step:
  "name_step label c i str (shift d s) = shift d (name_step label c i str s)"
  by (simp add: shift_def name_step_def alloc_def log_def print_def)

lemma map_of_moved: "map_of (map (\<lambda>b. (fst b + d, snd b)) l) (a + d) = map_of l (a :: nat)"
  by (induction l) auto

lemma shift_read_str: "read_str (shift d s) (a + d) = read_str s a"
  by (simp add: read_str_def map_of_moved)

lemma moves_lib: "moves_with d id (lib c r) (lib c r)"
  by (cases r) (simp_all add: moves_with_def shift_log shift_log_throw)

lemma moves_pure: "moves_with d g (\<lambda>s. (Inr v, s)) (\<lambda>s. (Inr (g v), s))"
  by (simp add: moves_with_def)

lemma moves_print: "moves_with d id (\<lambda>s. (Inr v, print l s)) (\<lambda>s. (Inr v, print l s))"
  by (simp add: moves_with_def shift_print)

lemma moves_and_then:
  assumes "moves_with d g m m'" and "\<And>v. moves_with d h (f v) (f' (g v))"
  shows "moves_with d h (and_then m f) (and_then m' f')"
  unfolding moves_with_def
proof
  fix s
  obtain r s1 where ms: "m s = (r, s1)" by (cases "m s")
  have m': "m' (shift d s) = (map_sum id g r, shift d s1)"
    using assms(1) ms by (simp add: moves_with_def)
  show "and_then m' f' (shift d s) =
        (map_sum id h (fst (and_then m f s)), shift d (snd (and_then m f s)))"
  proof (cases r)
    case (Inl a)
    then show ?thesis using ms m' by (simp add: and_then_def)
  next
    case (Inr v)
    then show ?thesis using ms m' assms(2) [of v] by (simp add: and_then_def moves_with_def)
  qed
qed

lemma moves_deref: "moves_with d id (deref p) (deref (map_option (\<lambda>a. a + d) p))"
  by (cases p) (simp_all add: moves_with_def deref_def shift_read_str split: option.splits)

lemma moves_deref_all: "moves_with d id (deref_all ps) (deref_all (shift_ptrs d ps))"
proof (induction ps)
  case Nil
  show ?case using moves_pure [of d id "[]"] by (simp add: shift_ptrs_def fun_eq_iff moves_with_def)
next
  case (Cons p ps)
  have "moves_with d id
          (and_then (deref p) (\<lambda>x. and_then (deref_all ps) (\<lambda>xs s'. (Inr (x # xs), s'))))
          (and_then (deref (map_option (\<lambda>a. a + d) p))
             (\<lambda>x. and_then (deref_all (shift_ptrs d ps)) (\<lambda>xs s'. (Inr (x # xs), s'))))"
    apply (rule moves_and_then [OF moves_deref])
    apply (simp only: id_apply)
    apply (rule moves_and_then [OF Cons])
    apply (simp only: id_apply)
    apply (simp add: moves_with_def)
    done
  then show ?case by (simp add: moves_with_def shift_ptrs_def id_def)
qed

lemma shift_Free: "Free (map_option (\<lambda>a. a + d) p) (shift d s) = shift d (Free p s)"
proof (cases p)
  case None
  then show ?thesis by simp
next
  case (Some a)
  have m: "a + d \<in> fst ` set (live (shift d s)) \<longleftrightarrow> a \<in> fst ` set (live s)"
    by (force simp: image_iff)
  have f: "filter (\<lambda>b. fst b \<noteq> a + d) (map (\<lambda>b. (fst b + d, snd b)) (live s)) =
           map (\<lambda>b. (fst b + d, snd b)) (filter (\<lambda>b. fst b \<noteq> a) (live s))"
    by (induction "live s") (simp_all add: filter_map comp_def)
  show ?thesis
    using m f by (simp add: Some shift_def)
qed

lemma shift_fold_Free: "fold Free (shift_ptrs d ps) (shift d s) = shift d (fold Free ps s)"
  by (induction ps arbitrary: s) (simp_all add: shift_ptrs_def shift_Free)

lemma shift_cleanup:
  "cleanup (shift_ptrs d ins) (shift_ptrs d outs) (shift d s) = shift d (cleanup ins outs s)"
  by (simp add: cleanup_def shift_fold_Free)

lemma moves_and_then_id:
  assumes "moves_with d id m m'" and "\<And>v. moves_with d h (f v) (f' v)"
  shows "moves_with d h (and_then m f) (and_then m' f')"
  using moves_and_then [OF assms(1), of h f f'] assms(2) by simp

lemma moves_name_loop:
  "moves_with d (shift_ptrs d) (name_loop label c get i n names)
     (name_loop label c get i n (shift_ptrs d names))"
proof (induction "n - i" arbitrary: i names)
  case 0
  then show ?case by (simp add: moves_with_def)
next
  case (Suc k)
  then have lt: "i < n" and k: "k = n - Suc i" by simp_all
  show ?case
  proof (cases "get i")
    case (Inl e)
    show ?thesis
      by (simp add: moves_with_def name_loop_raise [of i n get e, OF lt Inl] shift_log_throw)
  next
    case (Inr str)
    have u: "(shift_ptrs d names)[i := Some (next_addr s + d)] =
             shift_ptrs d (names[i := Some (next_addr s)])" for s
      by (simp add: shift_ptrs_def map_update)
    show ?thesis
      using Suc.hyps(1) [OF k]
      by (simp add: moves_with_def name_loop_step [of i n get str, OF lt Inr] u shift_name_step)
  qed
qed

lemma moves_name_loop_fresh:
  "moves_with d (shift_ptrs d) (name_loop label c get 0 n (replicate n None))
     (name_loop label c get 0 n (replicate n None))"
  using moves_name_loop [of d label c get 0 n "replicate n None"]
  by (simp add: shift_ptrs_def)

lemma moves_open_session: "moves_with d id (open_session rt) (open_session rt)"
  unfolding open_session_def
  by (intro moves_and_then_id moves_lib) (simp add: moves_with_def)

lemma moves_report_names:
  "moves_with d (map_prod (shift_ptrs d) (shift_ptrs d))
     (report_names rt session) (report_names rt session)"
  unfolding report_names_def
  apply (rule moves_and_then_id [OF moves_lib])
  apply (rule moves_and_then_id [OF moves_print])
  apply (rule moves_and_then [OF moves_name_loop_fresh])
  apply (rule moves_and_then_id [OF moves_lib])
  apply (rule moves_and_then_id [OF moves_print])
  apply (rule moves_and_then [OF moves_name_loop_fresh])
  apply (simp add: moves_with_def)
  done

lemma moves_first_name:
  "moves_with d id (\<lambda>s. case ps of [] \<Rightarrow> (Inl Undefined, s) | p # x \<Rightarrow> deref p s)
     (\<lambda>s. case shift_ptrs d ps of [] \<Rightarrow> (Inl Undefined, s) | p # x \<Rightarrow> deref p s)"
proof (cases ps)
  case Nil
  then show ?thesis by (simp add: moves_with_def shift_ptrs_def)
next
  case (Cons p ps')
  then show ?thesis using moves_deref [of d p] by (simp add: shift_ptrs_def)
qed

lemma moves_first_tensor:
  "moves_with d id (\<lambda>s. case ts of [] \<Rightarrow> (Inl Undefined, s) | t # x \<Rightarrow> lib c (g t) s)
     (\<lambda>s. case ts of [] \<Rightarrow> (Inl Undefined, s) | t # x \<Rightarrow> lib c (g t) s)"
proof (cases ts)
  case Nil
  then show ?thesis by (simp add: moves_with_def)
next
  case (Cons t ts')
  then show ?thesis using moves_lib [of d c "g t"] by simp
qed

lemma moves_first_float:
  "moves_with d id
     (\<lambda>s. case xs of [] \<Rightarrow> (Inl Undefined, s) | x # y \<Rightarrow> (Inr v, print (f x) s))
     (\<lambda>s. case xs of [] \<Rightarrow> (Inl Undefined, s) | x # y \<Rightarrow> (Inr v, print (f x) s))"
  by (cases xs) (simp_all add: moves_with_def shift_print)

lemma moves_run_inference:
  "moves_with d id (run_inference rt session ins outs)
     (run_inference rt session (shift_ptrs d ins) (shift_ptrs d outs))"
  unfolding run_inference_def
  apply (rule moves_and_then_id [OF moves_lib])
  apply (rule moves_and_then_id [OF moves_lib])
  apply (rule moves_and_then_id [OF moves_first_name])
  apply (rule moves_and_then_id [OF moves_deref_all])
  apply (rule moves_and_then_id [OF moves_lib])
  apply (rule moves_and_then_id [OF moves_first_tensor])
  apply (rule moves_first_float)
  done

lemma moves_try_body: "moves_with d id (try_body rt) (try_body rt)"
  unfolding try_body_def
proof (rule moves_and_then_id [OF moves_open_session], rule moves_and_then [OF moves_report_names])
  fix session :: 'a and v :: "addr option list \<times> addr option list"
  obtain i o' where v: "v = (i, o')" by (cases v)
  have "moves_with d id
          (and_then (run_inference rt session i o') (\<lambda>_ s. (Inr (), cleanup i o' s)))
          (and_then (run_inference rt session (shift_ptrs d i) (shift_ptrs d o'))
             (\<lambda>_ s. (Inr (), cleanup (shift_ptrs d i) (shift_ptrs d o') s)))"
    by (rule moves_and_then [OF moves_run_inference]) (simp add: moves_with_def shift_cleanup)
  then show "moves_with d id
          (case v of (input_node_names, output_node_names) \<Rightarrow>
             and_then (run_inference rt session input_node_names output_node_names)
               (\<lambda>_ s. (Inr (), cleanup input_node_names output_node_names s)))
          (case map_prod (shift_ptrs d) (shift_ptrs d) v of
             (input_node_names, output_node_names) \<Rightarrow>
             and_then (run_inference rt session input_node_names output_node_names)
               (\<lambda>_ s. (Inr (), cleanup input_node_names output_node_names s)))"
    by (simp add: v)
qed

lemma main_moved: "main rt (base + d) = (fst (main rt base), shift d (snd (main rt base)))"
proof -
  obtain r s where tb: "try_body rt (init base) = (r, s)" by (cases "try_body rt (init base)")
  have "try_body rt (init (base + d)) = (map_sum id id r, shift d s)"
    using moves_try_body [of d rt] tb by (simp add: moves_with_def shift_init)
  then have tb': "try_body rt (init (base + d)) = (r, shift d s)"
    by (simp add: sum.map_id0)
  show ?thesis
    unfolding main_def tb tb'
    by (simp add: shift_print split: sum.splits abort.splits exn.splits)
qed

text \<open>A call that threw \<^verbatim>\<open>Ort::Exception\<close> ends the run: it is the last call, the only
  one that threw, its message is the last line printed and the exit code is \<open>-1\<close>.\<close>

lemma runtime_error_fatal_full:
  assumes "(c, Some (OrtException what)) \<in> set (calls (snd (main rt base)))"
  shows "fst (main rt base) = Exit (- 1) \<and>
         last (out (snd (main rt base))) = ''Error running model inference: '' @ what \<and>
         last (calls (snd (main rt base))) = (c, Some (OrtException what)) \<and>
         filter (\<lambda>x. snd x \<noteq> None) (calls (snd (main rt base))) =
           [(c, Some (OrtException what))]"
proof -
  obtain r s where tb: "try_body rt (init base) = (r, s)"
    by (cases "try_body rt (init base)")
  have "returned (calls (init base))" by (simp add: init_def returned_def)
  then have t: "trace_agrees (r, s)" using trace_try_body [of "init base" rt] tb by simp
  have mem: "(c, Some (OrtException what)) \<in> set (calls s)"
    using assms tb by (simp add: main_calls)
  then have nr: "\<not> returned (calls s)" by (force simp: returned_def)
  then obtain e where r: "r = Inl (Raise e)"
    using t by (auto simp: trace_agrees_def split: sum.splits abort.splits)
  then obtain c' where ne: "calls s \<noteq> []" and l: "last (calls s) = (c', Some e)"
    and b: "returned (butlast (calls s))"
    using t by (auto simp: trace_agrees_def)
  have dec: "calls s = butlast (calls s) @ [(c', Some e)]"
    using ne l by (metis append_butlast_last_id)
  have "(c, Some (OrtException what)) \<notin> set (butlast (calls s))"
    using b by (force simp: returned_def)
  then have eq: "(c', Some e) = (c, Some (OrtException what))"
  proof -
    have "set (calls s) = set (butlast (calls s)) \<union> {(c', Some e)}"
      by (subst dec) simp
    with mem \<open>(c, Some (OrtException what)) \<notin> set (butlast (calls s))\<close>
    show ?thesis by simp
  qed
  then have e: "e = OrtException what" and c: "c' = c" by simp_all
  have m: "main rt base =
             (Exit (- 1), print (''Error running model inference: '' @ what) s)"
    using tb r e by (simp add: main_def)
  have f: "filter (\<lambda>x. snd x \<noteq> None) (butlast (calls s)) = []"
    using b by (auto simp: returned_def filter_empty_conv)
  have "filter (\<lambda>x. snd x \<noteq> None) (calls s) = [(c, Some (OrtException what))]"
    using f by (subst dec) (simp add: e c)
  then show ?thesis using m l e c by simp
qed

lemma runtime_error_fatal_aux:
  "(c, Some (OrtException what)) \<in> set (calls (snd (main rt base))) \<Longrightarrow>
   fst (main rt base) = Exit (- 1)"
  by (drule runtime_error_fatal_full) simp

text \<open>The session constructor is the only call that takes a path, and every call of
  it in a run is at the model path.\<close>

lemma only_lib: "only_calls P s \<Longrightarrow> P c \<Longrightarrow> only_calls P (snd (lib c r s))"
  by (cases r) (simp_all add: only_calls_def)

lemma only_same: "only_calls P s \<Longrightarrow> calls s' = calls s \<Longrightarrow> only_calls P s'"
  by (simp add: only_calls_def)

lemma only_and_then:
  assumes "only_calls P s"
    and "\<And>s. only_calls P s \<Longrightarrow> only_calls P (snd (m s))"
    and "\<And>v s. only_calls P s \<Longrightarrow> only_calls P (snd (f v s))"
  shows "only_calls P (snd (and_then m f s))"
proof (cases "m s")
  case (Pair r s')
  then have s': "only_calls P s'" using assms(1,2) by (metis snd_conv)
  show ?thesis
  proof (cases r)
    case (Inl a)
    then show ?thesis using s' Pair by (simp add: and_then_def)
  next
    case (Inr v)
    then show ?thesis using assms(3) [OF s', of v] Pair by (simp add: and_then_def)
  qed
qed

lemma only_name_loop:
  assumes "\<And>j. P (c j)"
  shows "only_calls P s \<Longrightarrow> only_calls P (snd (name_loop label c get i n names s))"
proof (induction "n - i" arbitrary: i names s)
  case 0
  then show ?case by simp
next
  case (Suc k)
  then have lt: "i < n" and k: "k = n - Suc i" by simp_all
  show ?case
  proof (cases "get i")
    case (Inl e)
    then show ?thesis
      using Suc.prems assms
      by (simp add: name_loop_raise [of i n get e, OF lt] only_calls_def)
  next
    case (Inr str)
    have "only_calls P (name_step label (c i) i str s)"
      using Suc.prems assms by (simp add: only_calls_def)
    from Suc.hyps(1) [OF k this] show ?thesis
      by (simp add: name_loop_step [of i n get str, OF lt Inr])
  qed
qed

lemma only_open_session:
  "only_calls at_model_path s \<Longrightarrow> only_calls at_model_path (snd (open_session rt s))"
  unfolding open_session_def
  by (intro only_and_then only_lib | assumption | simp)+

lemma only_report_names:
  "only_calls at_model_path s \<Longrightarrow> only_calls at_model_path (snd (report_names rt session s))"
  unfolding report_names_def
  by (intro only_and_then only_lib only_name_loop | assumption | simp add: only_calls_def)+

lemma only_run_inference:
  "only_calls at_model_path s \<Longrightarrow>
   only_calls at_model_path (snd (run_inference rt session ins outs s))"
proof -
  assume a: "only_calls at_model_path s"
  obtain r s' where ri: "run_inference rt session ins outs s = (r, s')"
    by (cases "run_inference rt session ins outs s")
  then have "set (calls s') \<subseteq> set (calls s) \<union>
      {x. fst x \<in> {Call_CreateCpu, Call_CreateTensor, Call_Run, Call_GetTensorMutableData}}"
    by (auto simp: run_inference_def and_then_def lib_def
        split: sum.splits prod.splits list.splits option.splits
        dest!: deref_all_stateD deref_stateD)
  then show ?thesis using a ri by (auto simp: only_calls_def)
qed

lemma only_try_body:
  "only_calls at_model_path s \<Longrightarrow> only_calls at_model_path (snd (try_body rt s))"
  unfolding try_body_def split_beta
  by (intro only_and_then only_open_session only_report_names only_run_inference
      | assumption | simp add: only_calls_def)+

lemma session_calls_at_model_path:
  assumes "(Call_Session p, e) \<in> set (calls (snd (main rt base)))"
  shows "p = model_path"
proof -
  have "only_calls at_model_path (init base)" by (simp add: only_calls_def init_def)
  then have "only_calls at_model_path (snd (try_body rt (init base)))" by (rule only_try_body)
  then have "at_model_path (fst (Call_Session p, e))"
    using assms unfolding main_calls only_calls_def by blast
  then show ?thesis by simp
qed

subsection \<open>What a completed try block has done\<close>

text \<open>Only the last statement of the inference prints a prediction line: a \<^verbatim>\<open>try\<close>
  block that aborts has printed none, and one that completes has printed it last, after
  \<^verbatim>\<open>Run\<close> and \<^verbatim>\<open>GetTensorMutableData\<close> returned.\<close>

lemma not_prediction_line: "l \<noteq> [] \<Longrightarrow> hd l \<noteq> CHR ''P'' \<Longrightarrow> \<not> is_prediction_line l"
  by (cases l) (simp_all add: is_prediction_line_def)

lemma prediction_line: "is_prediction_line (''Prediction: '' @ y)"
  by (simp add: is_prediction_line_def)

lemma keeps_and_then:
  assumes "Q s"
    and "\<And>s. Q s \<Longrightarrow> Q (snd (m s))"
    and "\<And>v s. Q s \<Longrightarrow> Q (snd (f v s))"
  shows "Q (snd (and_then m f s))"
proof (cases "m s")
  case (Pair r s')
  then have s': "Q s'" using assms(1,2) by (metis snd_conv)
  show ?thesis
  proof (cases r)
    case (Inl a)
    then show ?thesis using s' Pair by (simp add: and_then_def)
  next
    case (Inr v)
    then show ?thesis using assms(3) [OF s', of v] Pair by (simp add: and_then_def)
  qed
qed

lemma no_prediction_lib: "no_prediction s \<Longrightarrow> no_prediction (snd (lib c r s))"
  by (cases r) (simp_all add: no_prediction_def)

lemma no_prediction_print:
  "no_prediction s \<Longrightarrow> l \<noteq> [] \<Longrightarrow> hd l \<noteq> CHR ''P'' \<Longrightarrow> no_prediction (print l s)"
  by (simp add: no_prediction_def not_prediction_line)

lemma no_prediction_name_loop:
  assumes "label \<noteq> []" and "hd label \<noteq> CHR ''P''"
  shows "no_prediction s \<Longrightarrow> no_prediction (snd (name_loop label c get i n names s))"
proof (induction "n - i" arbitrary: i names s)
  case 0
  then show ?case by simp
next
  case (Suc k)
  then have lt: "i < n" and k: "k = n - Suc i" by simp_all
  show ?case
  proof (cases "get i")
    case (Inl e)
    then show ?thesis
      using Suc.prems
      by (simp add: name_loop_raise [of i n get e, OF lt] no_prediction_def)
  next
    case (Inr str)
    have "\<not> is_prediction_line (label @ show_nat i @ '' : name='' @ str)"
      using assms by (intro not_prediction_line) simp_all
    then have "no_prediction (name_step label (c i) i str s)"
      using Suc.prems by (simp add: no_prediction_def)
    from Suc.hyps(1) [OF k this] show ?thesis
      by (simp add: name_loop_step [of i n get str, OF lt Inr])
  qed
qed

lemma no_prediction_open_session:
  "no_prediction s \<Longrightarrow> no_prediction (snd (open_session rt s))"
  using open_session_heap [of rt s] by (simp add: no_prediction_def)

lemma no_prediction_report_names:
  "no_prediction s \<Longrightarrow> no_prediction (snd (report_names rt session s))"
  unfolding report_names_def
  by (intro keeps_and_then [where Q = no_prediction] no_prediction_lib no_prediction_name_loop
      | assumption | simp add: no_prediction_print)+

lemma run_inference_calls:
  assumes "run_inference rt session ins outs s = (Inr u, s')"
  shows "(Call_Run, None) \<in> set (calls s') \<and> (Call_GetTensorMutableData, None) \<in> set (calls s')"
  using assms
  by (auto simp: run_inference_def and_then_def lib_def
      split: sum.splits prod.splits list.splits option.splits
      dest!: deref_all_stateD deref_stateD)

lemma try_body_result:
  assumes tb: "try_body rt s0 = (r, s)" and np: "no_prediction s0"
  shows "case r of
           Inl a \<Rightarrow> no_prediction s
         | Inr u \<Rightarrow>
             (\<exists>x. out s \<noteq> [] \<and> last (out s) = ''Prediction: '' @ show_float rt x) \<and>
             (Call_Run, None) \<in> set (calls s) \<and>
             (Call_GetTensorMutableData, None) \<in> set (calls s)"
proof -
  obtain r1 s1 where os: "open_session rt s0 = (r1, s1)" by (cases "open_session rt s0")
  have np1: "no_prediction s1" using no_prediction_open_session [OF np, of rt] os by simp
  show ?thesis
  proof (cases r1)
    case (Inl a)
    then show ?thesis using tb os np1 by (auto simp: try_body_def and_then_def)
  next
    case (Inr session)
    obtain r2 s2 where rn: "report_names rt session s1 = (r2, s2)"
      by (cases "report_names rt session s1")
    have np2: "no_prediction s2" using no_prediction_report_names [OF np1, of rt session] rn by simp
    show ?thesis
    proof (cases r2)
      case (Inl a)
      then show ?thesis using tb os Inr rn np2 by (auto simp: try_body_def and_then_def)
    next
      case r2: (Inr ps)
      obtain pi po where ps: "ps = (pi, po)" by (cases ps)
      obtain r3 s3 where ri: "run_inference rt session pi po s2 = (r3, s3)"
        by (cases "run_inference rt session pi po s2")
      note eff = run_inference_effect [OF ri]
      show ?thesis
      proof (cases r3)
        case (Inl a)
        then have "no_prediction s3" using eff np2 by (simp add: no_prediction_def)
        then show ?thesis using tb os Inr rn r2 ps ri Inl by (auto simp: try_body_def and_then_def)
      next
        case r3: (Inr u)
        then obtain x where x: "out s3 = out s2 @ [''Prediction: '' @ show_float rt x]"
          using eff by auto
        have c: "(Call_Run, None) \<in> set (calls s3) \<and>
                 (Call_GetTensorMutableData, None) \<in> set (calls s3)"
          using run_inference_calls [of rt session pi po s2 u s3] ri r3 by simp
        have "r = Inr () \<and> s = cleanup pi po s3"
          using tb os Inr rn r2 ps ri r3 by (auto simp: try_body_def and_then_def)
        then show ?thesis using x c by auto
      qed
    qed
  qed
qed

lemma exit_zero_means_inference_ran:
  assumes "fst (main rt base) = Exit 0"
  shows "(\<exists>x. out (snd (main rt base)) \<noteq> [] \<and>
              last (out (snd (main rt base))) = ''Prediction: '' @ show_float rt x) \<and>
         (Call_Run, None) \<in> set (calls (snd (main rt base))) \<and>
         (Call_GetTensorMutableData, None) \<in> set (calls (snd (main rt base))) \<and>
         filter (\<lambda>x. snd x \<noteq> None) (calls (snd (main rt base))) = []"
proof -
  obtain r s where tb: "try_body rt (init base) = (r, s)"
    by (cases "try_body rt (init base)")
  from assms tb obtain u where r: "r = Inr u" and m: "main rt base = (Exit 0, s)"
    by (auto simp: main_def split: sum.splits abort.splits exn.splits)
  have "returned (calls (init base))" by (simp add: init_def returned_def)
  then have "trace_agrees (r, s)" using trace_try_body [of "init base" rt] tb by simp
  then have ret: "returned (calls s)" using r by (simp add: trace_agrees_def)
  have f: "filter (\<lambda>x. snd x \<noteq> None) (calls s) = []"
    using ret by (auto simp: returned_def filter_empty_conv)
  have "no_prediction (init base)" by (simp add: no_prediction_def init_def)
  from try_body_result [OF tb this] r f show ?thesis by (simp add: m)
qed

lemma prediction_means_exit_zero:
  assumes "filter is_prediction_line (out (snd (main rt base))) \<noteq> []"
  shows "fst (main rt base) = Exit 0"
proof -
  obtain r s where tb: "try_body rt (init base) = (r, s)"
    by (cases "try_body rt (init base)")
  have np: "no_prediction (init base)" by (simp add: no_prediction_def init_def)
  note res = try_body_result [OF tb np]
  have e: "\<not> is_prediction_line (''Error running model inference: '' @ what)" for what
    by (rule not_prediction_line) simp_all
  show ?thesis
  proof (cases r)
    case (Inr u)
    then show ?thesis using tb by (simp add: main_def)
  next
    case (Inl a)
    then have "no_prediction s" using res by simp
    then have "filter is_prediction_line (out (snd (main rt base))) = []"
      using tb Inl e
      by (auto simp: main_def no_prediction_def split: abort.splits exn.splits)
    with assms show ?thesis by simp
  qed
qed

lemma exit_minus_one_means_reported:
  assumes "fst (main rt base) = Exit (- 1)"
  shows "\<exists>c what. calls (snd (main rt base)) \<noteq> [] \<and>
           last (calls (snd (main rt base))) = (c, Some (OrtException what)) \<and>
           out (snd (main rt base)) \<noteq> [] \<and>
           last (out (snd (main rt base))) = ''Error running model inference: '' @ what"
proof -
  obtain r s where tb: "try_body rt (init base) = (r, s)"
    by (cases "try_body rt (init base)")
  from assms tb obtain what where r: "r = Inl (Raise (OrtException what))"
    and m: "main rt base = (Exit (- 1), print (''Error running model inference: '' @ what) s)"
    by (auto simp: main_def split: sum.splits abort.splits exn.splits)
  have "returned (calls (init base))" by (simp add: init_def returned_def)
  then have "trace_agrees (r, s)" using trace_try_body [of "init base" rt] tb by simp
  then obtain c where "calls s \<noteq> []" and "last (calls s) = (c, Some (OrtException what))"
    using r by (auto simp: trace_agrees_def)
  then show ?thesis by (auto simp: m)
qed

text \<open>Unfolding everything, to run the program on a concrete runtime.\<close>

lemmas run_defs =
  main_def try_body_def open_session_def report_names_def run_inference_def cleanup_def
  init_def name_loop_step name_step_def alloc_def print_def log_def log_throw_def deref_def
  read_str_def
  input_tensor_shape_def input_tensor_values_def show_nat.simps digit_char_def

lemmas spec_defs =
  spec_runtime_def only_at_def wide_model_def forest_model_def matches_signature_def
  fmt_hex_def bad_alloc_runtime_def forest_runtime_def wide_runtime_def bad_tensor_runtime_def

section \<open>The claims\<close>

text \<open>
  C1. Every name string obtained from the session is to be released exactly once on every
  exit path. The program frees the names only at the end of the \<^verbatim>\<open>try\<close> block: when
  \<^verbatim>\<open>Run\<close> throws after both name loops have run (here because the model declares the
  input shape \<open>[1, 5]\<close>), the handler returns \<open>-1\<close> and both name strings are still
  allocated.
\<close>

theorem names_leak_when_run_throws:
  "main wide_runtime 0 =
     (Exit (- 1),
      \<lparr>out = [''Number of inputs = 1'', ''Input 0 : name=input'',
              ''Number of outputs = 1'', ''Output 0 : name=output'',
              ''Error running model inference: input does not match the model signature''],
       live = [(1, ''output''), (0, ''input'')],
       next_addr = 2,
       invalid_frees = 0,
       calls = map (\<lambda>c. (c, None))
                 [Call_Env, Call_SessionOptions, Call_SetIntraOpNumThreads 1,
                  Call_Session ''../random_forest_model_v9.onnx'',
                  Call_AllocatorWithDefaultOptions, Call_GetInputCount,
                  Call_GetInputNameAllocated 0, Call_GetOutputCount,
                  Call_GetOutputNameAllocated 0, Call_CreateCpu, Call_CreateTensor] @
               [(Call_Run,
                 Some (OrtException ''input does not match the model signature''))]\<rparr>)"
  by (simp add: run_defs spec_defs model_path_def)

text \<open>
  C2. Against the runtime of the specification: when the model at the model path declares
  for its (first) input a shape other than the shape \<open>[1, 4]\<close> of the tensor the program
  supplies, \<^verbatim>\<open>Run\<close> throws the runtime's exception, the program returns \<open>-1\<close>, and its
  output is the signature report followed by the error line: no line starts with
  \<open>Prediction: \<close>.
\<close>

theorem shape_mismatch_fails:
  assumes f: "files model_path = Some m"
    and i: "model_inputs m = (name, ty, shape) # others"
    and ne: "shape \<noteq> input_tensor_shape"
  shows "fst (main (spec_runtime files fmt) base) = Exit (- 1) \<and>
         out (snd (main (spec_runtime files fmt) base)) =
           signature_report (map fst (model_inputs m)) (model_outputs m) @
           [''Error running model inference: input does not match the model signature''] \<and>
         filter is_prediction_line (out (snd (main (spec_runtime files fmt) base))) = []"
proof -
  let ?rt = "spec_runtime files fmt"
  let ?ins = "map fst (model_inputs m)"
  let ?outs = "model_outputs m"
  let ?s2 = "snd (report_names ?rt m (snd (open_session ?rt (init base))))"
  let ?t = "\<lparr>tensor_elem = TensorFloat, tensor_dims = input_tensor_shape,
             tensor_data = input_tensor_values\<rparr>"
  note tb = try_body_after_report
    [OF spec_runtime_opens [of files m, OF f] spec_runtime_declares, of fmt base]
  have nonempty: "?ins \<noteq> []" using i by simp
  have c: "CreateCpu ?rt = Inr ()" by (simp add: spec_runtime_def)
  have t: "CreateTensor ?rt input_tensor_values input_tensor_shape = Inr ?t"
    by (simp add: spec_runtime_def)
  have r: "Run ?rt m [hd ?ins] [?t] ?outs =
             Inl (OrtException ''input does not match the model signature'')"
    using i ne by (simp add: spec_runtime_def matches_signature_def)
  have l: "live ?s2 = rev (zip [base + length ?ins..<base + length ?ins + length ?outs] ?outs) @
                    rev (zip [base..<base + length ?ins] ?ins)"
    using tb(3) by simp
  note ri = run_inference_reaches_Run [OF l nonempty c t r]
  have tr: "try_body ?rt (init base) =
              (Inl (Raise (OrtException ''input does not match the model signature'')),
               log_throw Call_Run (OrtException ''input does not match the model signature'')
                 (log Call_CreateTensor (log Call_CreateCpu ?s2)))"
    using tb(1) ri by simp
  have m: "main ?rt base =
             (Exit (- 1),
              print (''Error running model inference: input does not match the model signature'')
                (log_throw Call_Run (OrtException ''input does not match the model signature'')
                   (log Call_CreateTensor (log Call_CreateCpu ?s2))))"
    by (simp add: main_def tr)
  have o: "out (snd (main ?rt base)) =
           signature_report ?ins ?outs @
           [''Error running model inference: input does not match the model signature'']"
    using tb(2) by (simp add: m)
  have "filter is_prediction_line (signature_report ?ins ?outs) = []"
    by (simp add: signature_report_def is_prediction_line_def filter_empty_conv split_beta)
  then have "filter is_prediction_line (out (snd (main ?rt base))) = []"
    unfolding o by (simp add: is_prediction_line_def)
  then show ?thesis using m o by simp
qed

theorem shape_mismatch_fails_witness:
  "fst (main wide_runtime 3) = Exit (- 1) \<and>
   out (snd (main wide_runtime 3)) =
     [''Number of inputs = 1'', ''Input 0 : name=input'',
      ''Number of outputs = 1'', ''Output 0 : name=output'',
      ''Error running model inference: input does not match the model signature''] \<and>
   filter is_prediction_line (out (snd (main wide_runtime 3))) = []"
proof -
  have f: "only_at model_path wide_model model_path = Some wide_model"
    by (simp add: only_at_def)
  have i: "model_inputs wide_model = (''input'', TensorFloat, [1, 5]) # []"
    by (simp add: wide_model_def forest_model_def)
  have ne: "[1, 5] \<noteq> input_tensor_shape"
    by (simp add: input_tensor_shape_def)
  from shape_mismatch_fails
    [where files = "only_at model_path wide_model" and m = wide_model and fmt = fmt_hex
       and base = 3, OF f i ne]
  show ?thesis
    by (simp add: wide_runtime_def wide_model_def forest_model_def signature_report_def
        enumerate_eq_zip show_nat.simps digit_char_def is_prediction_line_def)
qed

text \<open>
  C3. The exit status is 0 exactly when inference succeeded: \<^verbatim>\<open>Run\<close> and
  \<^verbatim>\<open>GetTensorMutableData\<close> returned, no library call threw, and the prediction line is the
  last line printed; equally, exactly when a prediction line was printed at all. The exit
  status is \<open>-1\<close> exactly when some library call of the run threw \<^verbatim>\<open>Ort::Exception\<close>;
  equally, exactly when the last library call threw \<^verbatim>\<open>Ort::Exception\<close> and the last line
  printed is the error line with its message.
\<close>

theorem exit_status_iff:
  "(fst (main rt base) = Exit 0 \<longleftrightarrow>
      (\<exists>x. out (snd (main rt base)) \<noteq> [] \<and>
           last (out (snd (main rt base))) = ''Prediction: '' @ show_float rt x) \<and>
      (Call_Run, None) \<in> set (calls (snd (main rt base))) \<and>
      (Call_GetTensorMutableData, None) \<in> set (calls (snd (main rt base))) \<and>
      filter (\<lambda>x. snd x \<noteq> None) (calls (snd (main rt base))) = []) \<and>
   (fst (main rt base) = Exit 0 \<longleftrightarrow>
      filter is_prediction_line (out (snd (main rt base))) \<noteq> []) \<and>
   (fst (main rt base) = Exit (- 1) \<longleftrightarrow>
      (\<exists>c what. (c, Some (OrtException what)) \<in> set (calls (snd (main rt base))))) \<and>
   (fst (main rt base) = Exit (- 1) \<longleftrightarrow>
      (\<exists>c what. calls (snd (main rt base)) \<noteq> [] \<and>
         last (calls (snd (main rt base))) = (c, Some (OrtException what)) \<and>
         out (snd (main rt base)) \<noteq> [] \<and>
         last (out (snd (main rt base))) = ''Error running model inference: '' @ what))"
proof -
  let ?ran = "(\<exists>x. out (snd (main rt base)) \<noteq> [] \<and>
           last (out (snd (main rt base))) = ''Prediction: '' @ show_float rt x) \<and>
      (Call_Run, None) \<in> set (calls (snd (main rt base))) \<and>
      (Call_GetTensorMutableData, None) \<in> set (calls (snd (main rt base))) \<and>
      filter (\<lambda>x. snd x \<noteq> None) (calls (snd (main rt base))) = []"
  let ?reported = "\<exists>c what. calls (snd (main rt base)) \<noteq> [] \<and>
         last (calls (snd (main rt base))) = (c, Some (OrtException what)) \<and>
         out (snd (main rt base)) \<noteq> [] \<and>
         last (out (snd (main rt base))) = ''Error running model inference: '' @ what"
  let ?threw = "\<exists>c what. (c, Some (OrtException what)) \<in> set (calls (snd (main rt base)))"
  have printed: "filter is_prediction_line (out (snd (main rt base))) \<noteq> []" if ?ran
  proof -
    from that obtain x where ne: "out (snd (main rt base)) \<noteq> []"
      and l: "last (out (snd (main rt base))) = ''Prediction: '' @ show_float rt x" by blast
    have "last (out (snd (main rt base))) \<in> set (out (snd (main rt base)))"
      using ne by (rule last_in_set)
    moreover have "is_prediction_line (last (out (snd (main rt base))))"
      unfolding l by (rule prediction_line)
    ultimately show ?thesis by (auto simp: filter_empty_conv)
  qed
  have a: "fst (main rt base) = Exit 0 \<longleftrightarrow> ?ran"
    using exit_zero_means_inference_ran [of rt base] prediction_means_exit_zero [of rt base]
      printed by blast
  have b: "fst (main rt base) = Exit 0 \<longleftrightarrow>
      filter is_prediction_line (out (snd (main rt base))) \<noteq> []"
    using a printed prediction_means_exit_zero [of rt base] by blast
  have threw: ?threw if ?reported
  proof -
    from that obtain c what where "calls (snd (main rt base)) \<noteq> []"
      and "last (calls (snd (main rt base))) = (c, Some (OrtException what))" by blast
    then have "(c, Some (OrtException what)) \<in> set (calls (snd (main rt base)))"
      by (metis last_in_set)
    then show ?thesis by blast
  qed
  have fatal: "fst (main rt base) = Exit (- 1)" if ?threw
    using that runtime_error_fatal_aux [of _ _ rt base] by blast
  have c: "fst (main rt base) = Exit (- 1) \<longleftrightarrow> ?threw"
    using exit_minus_one_means_reported [of rt base] threw fatal by blast
  have d: "fst (main rt base) = Exit (- 1) \<longleftrightarrow> ?reported"
    using exit_minus_one_means_reported [of rt base] threw fatal by blast
  from a b c d show ?thesis by blast
qed

theorem exit_status_iff_witness:
  "fst (main forest_runtime 0) = Exit 0 \<and>
   last (out (snd (main forest_runtime 0))) = ''Prediction: 1'' \<and>
   (Call_Run, None) \<in> set (calls (snd (main forest_runtime 0))) \<and>
   fst (main wide_runtime 0) = Exit (- 1) \<and>
   filter is_prediction_line (out (snd (main wide_runtime 0))) = []"
proof -
  have z: "fst (main forest_runtime 0) = Exit 0"
    by (simp add: run_defs spec_defs)
  have l: "last (out (snd (main forest_runtime 0))) = ''Prediction: 1''"
    by (simp add: run_defs spec_defs)
  have m: "fst (main wide_runtime 0) = Exit (- 1)"
    by (simp add: run_defs spec_defs)
  from exit_status_iff [of forest_runtime 0] exit_status_iff [of wide_runtime 0] z l m
  show ?thesis by auto
qed




text \<open>
  C5. When there is no readable model at the program's (fixed) model path, the session
  constructor throws the runtime's exception, the handler reports it and the program
  returns \<open>-1\<close>; nothing else is printed and no later library call is made.
\<close>

theorem missing_model_file_fails:
  assumes "files model_path = None"
  shows "main (spec_runtime files fmt) base =
     (Exit (- 1),
      \<lparr>out = [''Error running model inference: Load model from '' @ model_path @ '' failed''],
       live = [],
       next_addr = base,
       invalid_frees = 0,
       calls = [(Call_Env, None), (Call_SessionOptions, None),
                (Call_SetIntraOpNumThreads 1, None),
                (Call_Session model_path,
                 Some (OrtException (''Load model from '' @ model_path @ '' failed'')))]\<rparr>)"
  using assms by (simp add: run_defs spec_runtime_def)

theorem missing_model_file_fails_witness:
  "main (spec_runtime (\<lambda>_. None) fmt_hex) 0 =
     (Exit (- 1),
      \<lparr>out = [''Error running model inference: Load model from ../random_forest_model_v9.onnx failed''],
       live = [],
       next_addr = 0,
       invalid_frees = 0,
       calls = [(Call_Env, None), (Call_SessionOptions, None),
                (Call_SetIntraOpNumThreads 1, None),
                (Call_Session ''../random_forest_model_v9.onnx'',
                 Some (OrtException
                   ''Load model from ../random_forest_model_v9.onnx failed''))]\<rparr>)"
  using missing_model_file_fails [of "\<lambda>_. None" fmt_hex 0] by (simp add: model_path_def)

text \<open>
  C6. When the session opens and reports the signature \<open>ins\<close>, \<open>outs\<close>, the output of the
  program starts with the report of exactly that signature (the two counts, and each name
  with its index, in declaration order); at most one more line follows (the prediction or
  the error message).
\<close>

theorem printed_signature_matches:
  assumes "opens rt session" and "declares rt session ins outs"
  shows "\<exists>rest. out (snd (main rt base)) = signature_report ins outs @ rest \<and> length rest \<le> 1"
proof -
  let ?s2 = "snd (report_names rt session (snd (open_session rt (init base))))"
  let ?pi = "map Some [base..<base + length ins]"
  let ?po = "map Some [base + length ins..<base + length ins + length outs]"
  note tb = try_body_after_report [OF assms, of base]
  obtain r s3 where ri: "run_inference rt session ?pi ?po ?s2 = (r, s3)"
    by (cases "run_inference rt session ?pi ?po ?s2")
  note eff = run_inference_effect [OF ri]
  show ?thesis
  proof (cases r)
    case (Inr u)
    then obtain x where "out s3 = signature_report ins outs @ [''Prediction: '' @ show_float rt x]"
      using eff tb(2) by auto
    then show ?thesis using Inr ri tb(1) by (simp add: main_def)
  next
    case (Inl a)
    then have o3: "out s3 = signature_report ins outs" using eff tb(2) by simp
    show ?thesis
    proof (cases a)
      case Undefined
      then show ?thesis using Inl ri tb(1) o3 by (simp add: main_def)
    next
      case (Raise e)
      then show ?thesis using Inl ri tb(1) o3 by (cases e) (simp_all add: main_def)
    qed
  qed
qed

theorem printed_signature_matches_witness:
  "opens forest_runtime forest_model \<and>
   declares forest_runtime forest_model [''input''] [''output''] \<and>
   (\<exists>rest. out (snd (main forest_runtime 0)) =
      [''Number of inputs = 1'', ''Input 0 : name=input'',
       ''Number of outputs = 1'', ''Output 0 : name=output''] @ rest \<and> length rest \<le> 1)"
proof -
  have o: "opens forest_runtime forest_model"
    by (simp add: opens_def spec_defs)
  have d: "declares forest_runtime forest_model [''input''] [''output'']"
    by (simp add: declares_def spec_defs)
  from printed_signature_matches [OF o d, of 0] o d show ?thesis
    by (simp add: signature_report_def enumerate_eq_zip show_nat.simps digit_char_def)
qed

text \<open>
  C7. The scenario of the specification: the session opens, declares one input named
  \<open>input\<close> and one output, and accepts the hard-coded tensor (values 1, 2, 3, 4 with
  shape \<open>[1, 4]\<close>), returning at least one tensor with at least one element. Then the
  program prints the five lines of the scenario and returns 0 (and every name string has
  been freed).
\<close>

theorem scenario_prints_prediction:
  assumes "opens rt session" and "declares rt session [''input''] [output_name]"
    and "CreateCpu rt = Inr ()"
    and "CreateTensor rt input_tensor_values input_tensor_shape = Inr input_tensor"
    and "Run rt session [''input''] [input_tensor] [output_name] = Inr (t # ts)"
    and "GetTensorMutableData rt t = Inr (x # xs)"
  shows "main rt base =
     (Exit 0,
      \<lparr>out = [''Number of inputs = 1'', ''Input 0 : name=input'',
              ''Number of outputs = 1'', ''Output 0 : name='' @ output_name,
              ''Prediction: '' @ show_float rt x],
       live = [],
       next_addr = base + 2,
       invalid_frees = 0,
       calls = map (\<lambda>c. (c, None))
                 [Call_Env, Call_SessionOptions, Call_SetIntraOpNumThreads 1,
                  Call_Session ''../random_forest_model_v9.onnx'',
                  Call_AllocatorWithDefaultOptions, Call_GetInputCount,
                  Call_GetInputNameAllocated 0, Call_GetOutputCount,
                  Call_GetOutputNameAllocated 0, Call_CreateCpu, Call_CreateTensor,
                  Call_Run, Call_GetTensorMutableData]\<rparr>)"
  using assms
  by (simp add: run_defs opens_def declares_def model_path_def)

theorem scenario_prints_prediction_witness:
  "main forest_runtime 7 =
     (Exit 0,
      \<lparr>out = [''Number of inputs = 1'', ''Input 0 : name=input'',
              ''Number of outputs = 1'', ''Output 0 : name=output'',
              ''Prediction: 1''],
       live = [],
       next_addr = 9,
       invalid_frees = 0,
       calls = map (\<lambda>c. (c, None))
                 [Call_Env, Call_SessionOptions, Call_SetIntraOpNumThreads 1,
                  Call_Session ''../random_forest_model_v9.onnx'',
                  Call_AllocatorWithDefaultOptions, Call_GetInputCount,
                  Call_GetInputNameAllocated 0, Call_GetOutputCount,
                  Call_GetOutputNameAllocated 0, Call_CreateCpu, Call_CreateTensor,
                  Call_Run, Call_GetTensorMutableData]\<rparr>)"
proof -
  let ?t = "\<lparr>tensor_elem = TensorFloat, tensor_dims = [1, 4],
            tensor_data = [0x3F800000, 0x40000000, 0x40400000, 0x40800000]\<rparr>"
  let ?r = "\<lparr>tensor_elem = TensorFloat, tensor_dims = [1, 1], tensor_data = [0x3F800000]\<rparr>"
  have o: "opens forest_runtime forest_model"
    by (simp add: opens_def spec_defs)
  have d: "declares forest_runtime forest_model [''input''] [''output'']"
    by (simp add: declares_def spec_defs)
  have c: "CreateCpu forest_runtime = Inr ()"
    by (simp add: spec_defs)
  have t: "CreateTensor forest_runtime input_tensor_values input_tensor_shape = Inr ?t"
    by (simp add: spec_defs input_tensor_values_def input_tensor_shape_def)
  have r: "Run forest_runtime forest_model [''input''] [?t] [''output''] = Inr (?r # [])"
    by (simp add: spec_defs)
  have g: "GetTensorMutableData forest_runtime ?r = Inr (0x3F800000 # [])"
    by (simp add: spec_defs)
  from scenario_prints_prediction [OF o d c t r g, of 7] show ?thesis
    by (simp add: spec_defs)
qed

text \<open>
  C8. A run is a function of the runtime's answers (the model and the hard-coded input)
  alone: the one thing that can differ between two invocations against the same runtime,
  the addresses the allocator hands out, changes neither the exit outcome nor the printed
  lines nor the library calls made.
\<close>

theorem run_is_deterministic:
  "fst (main rt base) = fst (main rt base') \<and>
   out (snd (main rt base)) = out (snd (main rt base')) \<and>
   calls (snd (main rt base)) = calls (snd (main rt base'))"
proof (cases "base \<le> base'")
  case True
  then have "base' = base + (base' - base)" by simp
  then show ?thesis using main_moved [of rt base "base' - base"] by simp
next
  case False
  then have "base = base' + (base - base')" by simp
  then show ?thesis using main_moved [of rt base' "base - base'"] by simp
qed

text \<open>
  C9. The handler catches \<^verbatim>\<open>Ort::Exception\<close> only: when the \<^verbatim>\<open>try\<close> block is left by
  an exception of another type, that exception leaves \<^verbatim>\<open>main\<close> uncaught; no error line is
  printed and \<^verbatim>\<open>main\<close> returns no exit code.
\<close>

theorem other_exception_escapes:
  assumes "try_body rt (init base) = (Inl (Raise (OtherException e)), s)"
  shows "main rt base = (Uncaught (OtherException e), s) \<and>
         out (snd (main rt base)) = out s \<and>
         (\<forall>code. fst (main rt base) \<noteq> Exit code)"
  using assms by (simp add: main_def)

theorem other_exception_escapes_witness:
  "try_body bad_alloc_runtime (init 0) =
     (Inl (Raise (OtherException ''std::bad_alloc'')),
      \<lparr>out = [''Number of inputs = 1'', ''Input 0 : name=input'',
              ''Number of outputs = 1'', ''Output 0 : name=output''],
       live = [(1, ''output''), (0, ''input'')],
       next_addr = 2,
       invalid_frees = 0,
       calls = map (\<lambda>c. (c, None))
                 [Call_Env, Call_SessionOptions, Call_SetIntraOpNumThreads 1,
                  Call_Session model_path,
                  Call_AllocatorWithDefaultOptions, Call_GetInputCount,
                  Call_GetInputNameAllocated 0, Call_GetOutputCount,
                  Call_GetOutputNameAllocated 0, Call_CreateCpu, Call_CreateTensor] @
               [(Call_Run, Some (OtherException ''std::bad_alloc''))]\<rparr>) \<and>
   fst (main bad_alloc_runtime 0) = Uncaught (OtherException ''std::bad_alloc'') \<and>
   out (snd (main bad_alloc_runtime 0)) =
     [''Number of inputs = 1'', ''Input 0 : name=input'',
      ''Number of outputs = 1'', ''Output 0 : name=output'']"
proof -
  let ?s = "\<lparr>out = [''Number of inputs = 1'', ''Input 0 : name=input'',
              ''Number of outputs = 1'', ''Output 0 : name=output''],
       live = [(1, ''output''), (0, ''input'')],
       next_addr = 2,
       invalid_frees = 0,
       calls = map (\<lambda>c. (c, None))
                 [Call_Env, Call_SessionOptions, Call_SetIntraOpNumThreads 1,
                  Call_Session model_path,
                  Call_AllocatorWithDefaultOptions, Call_GetInputCount,
                  Call_GetInputNameAllocated 0, Call_GetOutputCount,
                  Call_GetOutputNameAllocated 0, Call_CreateCpu, Call_CreateTensor] @
               [(Call_Run, Some (OtherException ''std::bad_alloc''))]\<rparr>"
  have h: "try_body bad_alloc_runtime (init 0) =
             (Inl (Raise (OtherException ''std::bad_alloc'')), ?s)"
    by (simp add: run_defs spec_defs)
  from other_exception_escapes [OF h] h show ?thesis by simp
qed

text \<open>
  C10. \<^verbatim>\<open>main\<close> takes no arguments and applies the session constructor to the constant
  \<open>model_path\<close> only: two runtimes that open the same thing at
  \<^verbatim>\<open>../random_forest_model_v9.onnx\<close> and agree on every other call give the same run,
  whatever they would open at any other path, and every call of the session constructor in
  a run is at that path.
\<close>

theorem model_path_is_fixed:
  assumes "f ''../random_forest_model_v9.onnx'' = g ''../random_forest_model_v9.onnx''"
  shows "main (rt\<lparr>Session := f\<rparr>) base = main (rt\<lparr>Session := g\<rparr>) base \<and>
         (\<forall>p e. (Call_Session p, e) \<in> set (calls (snd (main (rt\<lparr>Session := f\<rparr>) base))) \<longrightarrow>
                p = ''../random_forest_model_v9.onnx'')"
proof -
  have "main (rt\<lparr>Session := f\<rparr>) base = main (rt\<lparr>Session := g\<rparr>) base"
    using assms
    by (simp add: main_def try_body_def open_session_def report_names_indep run_inference_indep
        model_path_def)
  moreover have "p = ''../random_forest_model_v9.onnx''"
    if "(Call_Session p, e) \<in> set (calls (snd (main (rt\<lparr>Session := f\<rparr>) base)))" for p e
    using session_calls_at_model_path [OF that] by (simp add: model_path_def)
  ultimately show ?thesis by blast
qed

theorem model_path_is_fixed_witness:
  "main (forest_runtime\<lparr>Session := (\<lambda>p. Inr forest_model)\<rparr>) 0 =
   main (forest_runtime\<lparr>Session := (\<lambda>p. if p = ''../random_forest_model_v9.onnx''
                                          then Inr forest_model
                                          else Inl (OrtException ''no such file''))\<rparr>) 0 \<and>
   (Call_Session ''../random_forest_model_v9.onnx'', None) \<in>
     set (calls (snd (main (forest_runtime\<lparr>Session := (\<lambda>p. Inr forest_model)\<rparr>) 0)))"
proof -
  note t = model_path_is_fixed
    [where f = "\<lambda>p. Inr forest_model"
       and g = "\<lambda>p. if p = ''../random_forest_model_v9.onnx'' then Inr forest_model
                    else Inl (OrtException ''no such file'')"
       and rt = forest_runtime and base = 0]
  have c: "(Call_Session ''../random_forest_model_v9.onnx'', None) \<in>
     set (calls (snd (main (forest_runtime\<lparr>Session := (\<lambda>p. Inr forest_model)\<rparr>) 0)))"
    by (simp add: run_defs spec_defs model_path_def)
  have e: "(Inr forest_model :: exn + model) =
           (if ''../random_forest_model_v9.onnx'' = ''../random_forest_model_v9.onnx''
            then Inr forest_model else Inl (OrtException ''no such file''))"
    by simp
  from t [OF e] c show ?thesis by blast
qed

end
